theory Spec2Isabelle
  imports Main "HOL-Library.Word"
begin

unbundle bit_operations_syntax

section \<open>Keccak-f[1600] and the streaming sponge of keccak1600.c\<close>

text \<open>
  The development embeds \<^verbatim>\<open>native/c/keccak/keccak1600.{h,c}\<close>.  A \<^verbatim>\<open>uint64_t\<close> is a
  \<open>64 word\<close>, a \<^verbatim>\<open>uint8_t\<close> an \<open>8 word\<close>, the \<^verbatim>\<open>unsigned\<close> rotation count a
  \<open>32 word\<close>.  The array \<^verbatim>\<open>uint64_t a[25]\<close> is a list of 25 lanes in the source's
  row-major order, \<^verbatim>\<open>a[5*y + x]\<close> being lane \<open>(x, y)\<close>.
\<close>

type_synonym u64 = "64 word"
type_synonym u8 = "8 word"
type_synonym lanes = "u64 list"

subsection \<open>Permutation core\<close>

text \<open>\<^verbatim>\<open>keccak_rotl64\<close>: \<^verbatim>\<open>(x << (n & 63)) | (x >> ((64 - n) & 63))\<close>, the count
  arithmetic being done in \<^verbatim>\<open>unsigned\<close>.\<close>

definition keccak_rotl64 :: "u64 \<Rightarrow> 32 word \<Rightarrow> u64" where
  "keccak_rotl64 x n =
     push_bit (unat (n AND 63)) x OR drop_bit (unat ((64 - n) AND 63)) x"

text \<open>\<^verbatim>\<open>keccak_state_zero\<close>: all 25 lanes become zero.\<close>

definition keccak_state_zero :: lanes where
  "keccak_state_zero =
     [0, 0, 0, 0, 0,  0, 0, 0, 0, 0,  0, 0, 0, 0, 0,  0, 0, 0, 0, 0,  0, 0, 0, 0, 0]"

text \<open>The table \<^verbatim>\<open>KECCAK_RC[24]\<close>.\<close>

definition KECCAK_RC :: "u64 list" where
  "KECCAK_RC =
    [0x0000000000000001, 0x0000000000008082,
     0x800000000000808a, 0x8000000080008000,
     0x000000000000808b, 0x0000000080000001,
     0x8000000080008081, 0x8000000000008009,
     0x000000000000008a, 0x0000000000000088,
     0x0000000080008009, 0x000000008000000a,
     0x000000008000808b, 0x800000000000008b,
     0x8000000000008089, 0x8000000000008003,
     0x8000000000008002, 0x8000000000000080,
     0x000000000000800a, 0x800000008000000a,
     0x8000000080008081, 0x8000000000008080,
     0x0000000080000001, 0x8000000080008008]"

text \<open>
  The macro \<^verbatim>\<open>KECCAK_ROUND(RC)\<close> acting on the 25 register variables \<^verbatim>\<open>aXY\<close>
  (\<open>X\<close> the column, \<open>Y\<close> the row).  The registers are passed and returned as the
  list \<open>[a00, a10, a20, a30, a40, a01, \<dots>, a44]\<close>, the order in which the function
  loads them from and stores them to \<^verbatim>\<open>s[0..24]\<close>.  Assignments to a register
  shadow the earlier binding, as they overwrite it in C.
\<close>

definition KECCAK_ROUND :: "u64 \<Rightarrow> lanes \<Rightarrow> lanes" where
  "KECCAK_ROUND RC r =
    (let a00 = r ! 0;  a10 = r ! 1;  a20 = r ! 2;  a30 = r ! 3;  a40 = r ! 4;
         a01 = r ! 5;  a11 = r ! 6;  a21 = r ! 7;  a31 = r ! 8;  a41 = r ! 9;
         a02 = r ! 10; a12 = r ! 11; a22 = r ! 12; a32 = r ! 13; a42 = r ! 14;
         a03 = r ! 15; a13 = r ! 16; a23 = r ! 17; a33 = r ! 18; a43 = r ! 19;
         a04 = r ! 20; a14 = r ! 21; a24 = r ! 22; a34 = r ! 23; a44 = r ! 24;

         c0 = a00 XOR a01 XOR a02 XOR a03 XOR a04;
         c1 = a10 XOR a11 XOR a12 XOR a13 XOR a14;
         c2 = a20 XOR a21 XOR a22 XOR a23 XOR a24;
         c3 = a30 XOR a31 XOR a32 XOR a33 XOR a34;
         c4 = a40 XOR a41 XOR a42 XOR a43 XOR a44;
         d0 = c4 XOR keccak_rotl64 c1 1;
         d1 = c0 XOR keccak_rotl64 c2 1;
         d2 = c1 XOR keccak_rotl64 c3 1;
         d3 = c2 XOR keccak_rotl64 c4 1;
         d4 = c3 XOR keccak_rotl64 c0 1;
         a00 = a00 XOR d0; a01 = a01 XOR d0; a02 = a02 XOR d0; a03 = a03 XOR d0; a04 = a04 XOR d0;
         a10 = a10 XOR d1; a11 = a11 XOR d1; a12 = a12 XOR d1; a13 = a13 XOR d1; a14 = a14 XOR d1;
         a20 = a20 XOR d2; a21 = a21 XOR d2; a22 = a22 XOR d2; a23 = a23 XOR d2; a24 = a24 XOR d2;
         a30 = a30 XOR d3; a31 = a31 XOR d3; a32 = a32 XOR d3; a33 = a33 XOR d3; a34 = a34 XOR d3;
         a40 = a40 XOR d4; a41 = a41 XOR d4; a42 = a42 XOR d4; a43 = a43 XOR d4; a44 = a44 XOR d4;

         b00 = a00;
         b10 = keccak_rotl64 a01 1;  b20 = keccak_rotl64 a02 62;
         b30 = keccak_rotl64 a03 28; b40 = keccak_rotl64 a04 27;
         b01 = keccak_rotl64 a10 36; b11 = keccak_rotl64 a11 44;
         b21 = keccak_rotl64 a12 6;  b31 = keccak_rotl64 a13 55;
         b41 = keccak_rotl64 a14 20;
         b02 = keccak_rotl64 a20 3;  b12 = keccak_rotl64 a21 10;
         b22 = keccak_rotl64 a22 43; b32 = keccak_rotl64 a23 25;
         b42 = keccak_rotl64 a24 39;
         b03 = keccak_rotl64 a30 41; b13 = keccak_rotl64 a31 45;
         b23 = keccak_rotl64 a32 15; b33 = keccak_rotl64 a33 21;
         b43 = keccak_rotl64 a34 8;
         b04 = keccak_rotl64 a40 18; b14 = keccak_rotl64 a41 2;
         b24 = keccak_rotl64 a42 61; b34 = keccak_rotl64 a43 56;
         b44 = keccak_rotl64 a44 14;

         a00 = b00 XOR (NOT b10 AND b20);
         a10 = b10 XOR (NOT b20 AND b30);
         a20 = b20 XOR (NOT b30 AND b40);
         a30 = b30 XOR (NOT b40 AND b00);
         a40 = b40 XOR (NOT b00 AND b10);
         a01 = b01 XOR (NOT b11 AND b21);
         a11 = b11 XOR (NOT b21 AND b31);
         a21 = b21 XOR (NOT b31 AND b41);
         a31 = b31 XOR (NOT b41 AND b01);
         a41 = b41 XOR (NOT b01 AND b11);
         a02 = b02 XOR (NOT b12 AND b22);
         a12 = b12 XOR (NOT b22 AND b32);
         a22 = b22 XOR (NOT b32 AND b42);
         a32 = b32 XOR (NOT b42 AND b02);
         a42 = b42 XOR (NOT b02 AND b12);
         a03 = b03 XOR (NOT b13 AND b23);
         a13 = b13 XOR (NOT b23 AND b33);
         a23 = b23 XOR (NOT b33 AND b43);
         a33 = b33 XOR (NOT b43 AND b03);
         a43 = b43 XOR (NOT b03 AND b13);
         a04 = b04 XOR (NOT b14 AND b24);
         a14 = b14 XOR (NOT b24 AND b34);
         a24 = b24 XOR (NOT b34 AND b44);
         a34 = b34 XOR (NOT b44 AND b04);
         a44 = b44 XOR (NOT b04 AND b14);

         a00 = a00 XOR RC
     in [a00, a10, a20, a30, a40,
         a01, a11, a21, a31, a41,
         a02, a12, a22, a32, a42,
         a03, a13, a23, a33, a43,
         a04, a14, a24, a34, a44])"

text \<open>
  \<^verbatim>\<open>keccakf1600\<close>: load the 25 lanes, run the round macro 24 times with
  \<^verbatim>\<open>KECCAK_RC[0]\<close> to \<^verbatim>\<open>KECCAK_RC[23]\<close> in this order, store the 25 lanes.
\<close>

definition keccakf1600 :: "lanes \<Rightarrow> lanes" where
  "keccakf1600 s =
    (let r = [s ! 0,  s ! 1,  s ! 2,  s ! 3,  s ! 4,
              s ! 5,  s ! 6,  s ! 7,  s ! 8,  s ! 9,
              s ! 10, s ! 11, s ! 12, s ! 13, s ! 14,
              s ! 15, s ! 16, s ! 17, s ! 18, s ! 19,
              s ! 20, s ! 21, s ! 22, s ! 23, s ! 24];
         r = KECCAK_ROUND (KECCAK_RC ! 0) r;
         r = KECCAK_ROUND (KECCAK_RC ! 1) r;
         r = KECCAK_ROUND (KECCAK_RC ! 2) r;
         r = KECCAK_ROUND (KECCAK_RC ! 3) r;
         r = KECCAK_ROUND (KECCAK_RC ! 4) r;
         r = KECCAK_ROUND (KECCAK_RC ! 5) r;
         r = KECCAK_ROUND (KECCAK_RC ! 6) r;
         r = KECCAK_ROUND (KECCAK_RC ! 7) r;
         r = KECCAK_ROUND (KECCAK_RC ! 8) r;
         r = KECCAK_ROUND (KECCAK_RC ! 9) r;
         r = KECCAK_ROUND (KECCAK_RC ! 10) r;
         r = KECCAK_ROUND (KECCAK_RC ! 11) r;
         r = KECCAK_ROUND (KECCAK_RC ! 12) r;
         r = KECCAK_ROUND (KECCAK_RC ! 13) r;
         r = KECCAK_ROUND (KECCAK_RC ! 14) r;
         r = KECCAK_ROUND (KECCAK_RC ! 15) r;
         r = KECCAK_ROUND (KECCAK_RC ! 16) r;
         r = KECCAK_ROUND (KECCAK_RC ! 17) r;
         r = KECCAK_ROUND (KECCAK_RC ! 18) r;
         r = KECCAK_ROUND (KECCAK_RC ! 19) r;
         r = KECCAK_ROUND (KECCAK_RC ! 20) r;
         r = KECCAK_ROUND (KECCAK_RC ! 21) r;
         r = KECCAK_ROUND (KECCAK_RC ! 22) r;
         r = KECCAK_ROUND (KECCAK_RC ! 23) r
     in r)"

subsection \<open>Sponge context\<close>

text \<open>
  \<^verbatim>\<open>struct keccak1600_ctx\<close>.  A \<^verbatim>\<open>size_t\<close> is a natural number below \<open>2 ^ 64\<close>; the one
  subtraction of the source that can wrap, \<^verbatim>\<open>rate - pos\<close> (and \<^verbatim>\<open>rate - 1\<close>), is
  \<open>size_sub\<close>.  The additions \<^verbatim>\<open>pos + i\<close> and \<^verbatim>\<open>pos += t\<close> cannot wrap before an
  access outside the 200 state bytes has happened, and \<^verbatim>\<open>inlen -= t\<close> is guarded by
  \<^verbatim>\<open>t <= inlen\<close>.
\<close>

record keccak1600_ctx =
  ctx_a :: lanes
  ctx_rate :: nat
  ctx_pos :: nat
  ctx_delim :: u8

definition size_sub :: "nat \<Rightarrow> nat \<Rightarrow> nat" where
  "size_sub x y = (x + 2 ^ 64 - y) mod 2 ^ 64"

text \<open>
  Undefined behaviour of the C program is a value: reading through an absent (null)
  input pointer, and an access outside a buffer (the 200 bytes of the state, or the
  bytes the input pointer points to).
\<close>

datatype fault = NullDeref | OutOfBounds

text \<open>
  \<^verbatim>\<open>uint8_t *st = (uint8_t *)ctx->a\<close>: the 200-byte view of the 25 lanes.  Byte \<open>i\<close>
  is byte \<open>i mod 8\<close> of lane \<open>i div 8\<close>, least significant byte first (the
  little-endian layout the header documents).
\<close>

definition st_get :: "lanes \<Rightarrow> nat \<Rightarrow> u8" where
  "st_get A i = ucast (drop_bit (8 * (i mod 8)) (A ! (i div 8)))"

definition st_xor :: "lanes \<Rightarrow> nat \<Rightarrow> u8 \<Rightarrow> lanes" where
  "st_xor A i b = A[i div 8 := (A ! (i div 8)) XOR push_bit (8 * (i mod 8)) (ucast b)]"

text \<open>\<^verbatim>\<open>st[i] ^= b\<close>.\<close>

definition st_xor_at :: "lanes \<Rightarrow> nat \<Rightarrow> u8 \<Rightarrow> fault + lanes" where
  "st_xor_at A i b = (if i < 200 then Inr (st_xor A i b) else Inl OutOfBounds)"

text \<open>\<^verbatim>\<open>memcpy(out, st + pos, t)\<close>: the \<open>t\<close> bytes copied out.\<close>

definition st_read :: "lanes \<Rightarrow> nat \<Rightarrow> nat \<Rightarrow> fault + u8 list" where
  "st_read A p t = (if p + t \<le> 200 then Inr (map (st_get A) [p..<p + t]) else Inl OutOfBounds)"

text \<open>
  The input pointer \<^verbatim>\<open>in\<close> is \<open>None\<close> when it is null and \<open>Some bs\<close> when it points
  to the readable bytes \<open>bs\<close>.  \<^verbatim>\<open>in[i]\<close> is \<open>in_read\<close>, \<^verbatim>\<open>in += t\<close> is \<open>in_adv\<close>.
\<close>

definition in_read :: "u8 list option \<Rightarrow> nat \<Rightarrow> fault + u8" where
  "in_read inp i =
     (case inp of None \<Rightarrow> Inl NullDeref
      | Some bs \<Rightarrow> if i < length bs then Inr (bs ! i) else Inl OutOfBounds)"

definition in_adv :: "u8 list option \<Rightarrow> nat \<Rightarrow> u8 list option" where
  "in_adv inp t = map_option (drop t) inp"

text \<open>\<^verbatim>\<open>keccak1600_init\<close>.\<close>

definition keccak1600_init :: "nat \<Rightarrow> u8 \<Rightarrow> keccak1600_ctx" where
  "keccak1600_init rate delim =
     \<lparr>ctx_a = keccak_state_zero, ctx_rate = rate, ctx_pos = 0, ctx_delim = delim\<rparr>"

text \<open>
  The byte loop \<^verbatim>\<open>for (; i < i + n; i++) st[off + i] ^= in[i]\<close>, with \<open>n\<close> iterations
  left.
\<close>

fun xor_in :: "lanes \<Rightarrow> nat \<Rightarrow> u8 list option \<Rightarrow> nat \<Rightarrow> nat \<Rightarrow> fault + lanes" where
  "xor_in A off inp i 0 = Inr A"
| "xor_in A off inp i (Suc n) =
     (case in_read inp i of
        Inl e \<Rightarrow> Inl e
      | Inr b \<Rightarrow>
          (case st_xor_at A (off + i) b of
             Inl e \<Rightarrow> Inl e
           | Inr A' \<Rightarrow> xor_in A' off inp (Suc i) n))"

text \<open>The block \<^verbatim>\<open>if (pos) { ... }\<close> of \<^verbatim>\<open>keccak1600_absorb\<close>: it returns the lanes,
  \<^verbatim>\<open>pos\<close>, \<^verbatim>\<open>in\<close> and \<^verbatim>\<open>inlen\<close>.\<close>

definition absorb_head ::
  "nat \<Rightarrow> lanes \<Rightarrow> nat \<Rightarrow> u8 list option \<Rightarrow> nat \<Rightarrow> fault + (lanes \<times> nat \<times> u8 list option \<times> nat)" where
  "absorb_head rate A pos inp inlen =
     (if pos \<noteq> 0 then
        (let t = size_sub rate pos;
             t = (if t > inlen then inlen else t)
         in case xor_in A pos inp 0 t of
              Inl e \<Rightarrow> Inl e
            | Inr A' \<Rightarrow>
                (if pos + t = rate then Inr (keccakf1600 A', 0, in_adv inp t, inlen - t)
                 else Inr (A', pos + t, in_adv inp t, inlen - t)))
      else Inr (A, pos, inp, inlen))"

text \<open>The loop \<^verbatim>\<open>while (inlen >= rate) { ... }\<close>.  It need not terminate, so \<open>None\<close>
  is the loop that runs forever.\<close>

partial_function (option) absorb_blocks ::
  "nat \<Rightarrow> lanes \<Rightarrow> u8 list option \<Rightarrow> nat \<Rightarrow> (fault + (lanes \<times> u8 list option \<times> nat)) option" where
  "absorb_blocks rate A inp inlen =
     (if inlen \<ge> rate then
        (case xor_in A 0 inp 0 rate of
           Inl e \<Rightarrow> Some (Inl e)
         | Inr A' \<Rightarrow> absorb_blocks rate (keccakf1600 A') (in_adv inp rate) (inlen - rate))
      else Some (Inr (A, inp, inlen)))"

text \<open>The block \<^verbatim>\<open>if (inlen) { ... }\<close>.\<close>

definition absorb_tail :: "lanes \<Rightarrow> nat \<Rightarrow> u8 list option \<Rightarrow> nat \<Rightarrow> fault + (lanes \<times> nat)" where
  "absorb_tail A pos inp inlen =
     (if inlen \<noteq> 0 then
        (case xor_in A pos inp 0 inlen of
           Inl e \<Rightarrow> Inl e
         | Inr A' \<Rightarrow> Inr (A', pos + inlen))
      else Inr (A, pos))"

text \<open>\<^verbatim>\<open>keccak1600_absorb\<close>.\<close>

definition keccak1600_absorb ::
  "keccak1600_ctx \<Rightarrow> u8 list option \<Rightarrow> nat \<Rightarrow> (fault + keccak1600_ctx) option" where
  "keccak1600_absorb ctx inp inlen =
     (case absorb_head (ctx_rate ctx) (ctx_a ctx) (ctx_pos ctx) inp inlen of
        Inl e \<Rightarrow> Some (Inl e)
      | Inr (A1, pos1, inp1, inlen1) \<Rightarrow>
          (case absorb_blocks (ctx_rate ctx) A1 inp1 inlen1 of
             None \<Rightarrow> None
           | Some (Inl e) \<Rightarrow> Some (Inl e)
           | Some (Inr (A2, inp2, inlen2)) \<Rightarrow>
               (case absorb_tail A2 pos1 inp2 inlen2 of
                  Inl e \<Rightarrow> Some (Inl e)
                | Inr (A3, pos3) \<Rightarrow> Some (Inr (ctx\<lparr>ctx_a := A3, ctx_pos := pos3\<rparr>)))))"

text \<open>\<^verbatim>\<open>keccak1600_finalize\<close>.\<close>

definition keccak1600_finalize :: "keccak1600_ctx \<Rightarrow> fault + keccak1600_ctx" where
  "keccak1600_finalize ctx =
     (case st_xor_at (ctx_a ctx) (ctx_pos ctx) (ctx_delim ctx) of
        Inl e \<Rightarrow> Inl e
      | Inr A1 \<Rightarrow>
          (case st_xor_at A1 (size_sub (ctx_rate ctx) 1) 0x80 of
             Inl e \<Rightarrow> Inl e
           | Inr A2 \<Rightarrow> Inr (ctx\<lparr>ctx_a := keccakf1600 A2, ctx_pos := 0\<rparr>)))"

text \<open>
  The loop \<^verbatim>\<open>while (outlen) { ... }\<close> of \<^verbatim>\<open>keccak1600_squeeze\<close>.  The bytes written
  through \<^verbatim>\<open>out\<close> are collected in order in the last argument.
\<close>

partial_function (option) squeeze_loop ::
  "nat \<Rightarrow> lanes \<Rightarrow> nat \<Rightarrow> nat \<Rightarrow> u8 list \<Rightarrow> (fault + (lanes \<times> nat \<times> u8 list)) option" where
  "squeeze_loop rate A pos outlen out =
     (if outlen \<noteq> 0 then
        (let A1 = (if pos = rate then keccakf1600 A else A);
             pos1 = (if pos = rate then 0 else pos);
             t = size_sub rate pos1;
             t = (if t > outlen then outlen else t)
         in case st_read A1 pos1 t of
              Inl e \<Rightarrow> Some (Inl e)
            | Inr bs \<Rightarrow> squeeze_loop rate A1 (pos1 + t) (outlen - t) (out @ bs))
      else Some (Inr (A, pos, out)))"

text \<open>\<^verbatim>\<open>keccak1600_squeeze\<close>: the updated context and the \<open>outlen\<close> bytes written.\<close>

definition keccak1600_squeeze ::
  "keccak1600_ctx \<Rightarrow> nat \<Rightarrow> (fault + (keccak1600_ctx \<times> u8 list)) option" where
  "keccak1600_squeeze ctx outlen =
     (case squeeze_loop (ctx_rate ctx) (ctx_a ctx) (ctx_pos ctx) outlen [] of
        None \<Rightarrow> None
      | Some (Inl e) \<Rightarrow> Some (Inl e)
      | Some (Inr (A, pos, out)) \<Rightarrow> Some (Inr (ctx\<lparr>ctx_a := A, ctx_pos := pos\<rparr>, out)))"

subsection \<open>One-shot helpers\<close>

definition KECCAK_RATE_SHA3_224 :: nat where "KECCAK_RATE_SHA3_224 = 144"
definition KECCAK_RATE_SHA3_256 :: nat where "KECCAK_RATE_SHA3_256 = 136"
definition KECCAK_RATE_SHA3_384 :: nat where "KECCAK_RATE_SHA3_384 = 104"
definition KECCAK_RATE_SHA3_512 :: nat where "KECCAK_RATE_SHA3_512 = 72"

definition KECCAK_DELIM_KECCAK :: u8 where "KECCAK_DELIM_KECCAK = 0x01"
definition KECCAK_DELIM_SHA3 :: u8 where "KECCAK_DELIM_SHA3 = 0x06"

text \<open>\<^verbatim>\<open>sha3_hash_generic\<close>: the bytes written to \<^verbatim>\<open>out\<close>; the context is a local
  variable and is dropped.\<close>

definition sha3_hash_generic ::
  "u8 list option \<Rightarrow> nat \<Rightarrow> nat \<Rightarrow> nat \<Rightarrow> u8 \<Rightarrow> (fault + u8 list) option" where
  "sha3_hash_generic inp inlen outlen rate delim =
     (case keccak1600_absorb (keccak1600_init rate delim) inp inlen of
        None \<Rightarrow> None
      | Some (Inl e) \<Rightarrow> Some (Inl e)
      | Some (Inr ctx1) \<Rightarrow>
          (case keccak1600_finalize ctx1 of
             Inl e \<Rightarrow> Some (Inl e)
           | Inr ctx2 \<Rightarrow>
               (case keccak1600_squeeze ctx2 outlen of
                  None \<Rightarrow> None
                | Some (Inl e) \<Rightarrow> Some (Inl e)
                | Some (Inr (ctx3, out)) \<Rightarrow> Some (Inr out))))"

definition keccak_256 :: "u8 list option \<Rightarrow> nat \<Rightarrow> (fault + u8 list) option" where
  "keccak_256 inp inlen = sha3_hash_generic inp inlen 32 KECCAK_RATE_SHA3_256 KECCAK_DELIM_KECCAK"

definition sha3_256 :: "u8 list option \<Rightarrow> nat \<Rightarrow> (fault + u8 list) option" where
  "sha3_256 inp inlen = sha3_hash_generic inp inlen 32 KECCAK_RATE_SHA3_256 KECCAK_DELIM_SHA3"

definition sha3_224 :: "u8 list option \<Rightarrow> nat \<Rightarrow> (fault + u8 list) option" where
  "sha3_224 inp inlen = sha3_hash_generic inp inlen 28 KECCAK_RATE_SHA3_224 KECCAK_DELIM_SHA3"

definition sha3_384 :: "u8 list option \<Rightarrow> nat \<Rightarrow> (fault + u8 list) option" where
  "sha3_384 inp inlen = sha3_hash_generic inp inlen 48 KECCAK_RATE_SHA3_384 KECCAK_DELIM_SHA3"

definition sha3_512 :: "u8 list option \<Rightarrow> nat \<Rightarrow> (fault + u8 list) option" where
  "sha3_512 inp inlen = sha3_hash_generic inp inlen 64 KECCAK_RATE_SHA3_512 KECCAK_DELIM_SHA3"

subsection \<open>The one-shot composition of the specification\<close>

text \<open>
  The composition the specification describes for a one-shot helper: \<open>init(rate, delim)\<close>,
  one \<open>absorb\<close> of the whole input, \<open>finalize\<close>, \<open>squeeze(output length)\<close>.  \<open>and_then\<close>
  passes a result on unless the step before it did not return or ended in a fault.
\<close>

definition and_then :: "(fault + 'a) option \<Rightarrow> ('a \<Rightarrow> (fault + 'b) option) \<Rightarrow> (fault + 'b) option" where
  "and_then r f = (case r of None \<Rightarrow> None | Some (Inl e) \<Rightarrow> Some (Inl e) | Some (Inr x) \<Rightarrow> f x)"

definition sponge_spec :: "nat \<Rightarrow> u8 \<Rightarrow> nat \<Rightarrow> u8 list option \<Rightarrow> nat \<Rightarrow> (fault + u8 list) option" where
  "sponge_spec rate delim outlen inp inlen =
     and_then (keccak1600_absorb (keccak1600_init rate delim) inp inlen) (\<lambda>c1.
     and_then (Some (keccak1600_finalize c1)) (\<lambda>c2.
     and_then (keccak1600_squeeze c2 outlen) (\<lambda>(c3, out). Some (Inr out))))"

subsection \<open>Absorbing byte by byte\<close>

text \<open>
  What the specification says \<open>absorb\<close> does with one byte: XOR it into the rate window at
  \<open>position\<close>, advance, and when \<open>position\<close> reaches \<open>rate\<close> apply the permutation and
  reset \<open>position\<close> to 0.  \<open>absorb_bytes\<close> does this for a byte sequence.
\<close>

definition absorb_byte :: "nat \<Rightarrow> u8 \<Rightarrow> lanes \<times> nat \<Rightarrow> lanes \<times> nat" where
  "absorb_byte rate b = (\<lambda>(A, pos).
     if pos + 1 = rate then (keccakf1600 (st_xor A pos b), 0) else (st_xor A pos b, pos + 1))"

definition absorb_bytes :: "nat \<Rightarrow> u8 list \<Rightarrow> lanes \<times> nat \<Rightarrow> lanes \<times> nat" where
  "absorb_bytes rate bs = fold (absorb_byte rate) bs"

text \<open>A sequence of \<^verbatim>\<open>keccak1600_absorb\<close> calls, one per chunk, each given a pointer to
  the chunk and its length.\<close>

fun absorb_chunks :: "keccak1600_ctx \<Rightarrow> u8 list list \<Rightarrow> (fault + keccak1600_ctx) option" where
  "absorb_chunks ctx [] = Some (Inr ctx)"
| "absorb_chunks ctx (c # cs) =
     and_then (keccak1600_absorb ctx (Some c) (length c)) (\<lambda>ctx'. absorb_chunks ctx' cs)"

text \<open>\<open>finalize\<close> followed by \<open>squeeze(n)\<close>.\<close>

definition finalize_squeeze :: "nat \<Rightarrow> keccak1600_ctx \<Rightarrow> (fault + keccak1600_ctx \<times> u8 list) option" where
  "finalize_squeeze n ctx = and_then (Some (keccak1600_finalize ctx)) (\<lambda>c. keccak1600_squeeze c n)"

subsection \<open>Direct writes to the state\<close>


section \<open>Bit-sliced lanes\<close>

text \<open>
  For computing \<^verbatim>\<open>keccakf1600\<close> on given states inside the logic, a lane is also
  represented by the list of its 64 bits, least significant bit first.  \<open>b2w\<close> reads
  such a list as a lane; \<open>xorl\<close>, \<open>chil\<close> and \<open>rotb\<close> are XOR, the map
  \<open>a XOR (NOT b AND c)\<close> and rotation to the left on bit lists.
\<close>

definition b2w :: "bool list \<Rightarrow> u64" where
  "b2w bs = horner_sum of_bool 2 bs"

fun bxor :: "bool \<Rightarrow> bool \<Rightarrow> bool" where
  "bxor False False = False"
| "bxor False True = True"
| "bxor True False = True"
| "bxor True True = False"

fun bchi :: "bool \<Rightarrow> bool \<Rightarrow> bool \<Rightarrow> bool" where
  "bchi False False False = False"
| "bchi False False True = True"
| "bchi False True False = False"
| "bchi False True True = False"
| "bchi True False False = True"
| "bchi True False True = False"
| "bchi True True False = True"
| "bchi True True True = True"

fun xorl :: "bool list \<Rightarrow> bool list \<Rightarrow> bool list" where
  "xorl (a # as) (b # bs) = bxor a b # xorl as bs"
| "xorl [] bs = []"
| "xorl as [] = []"

fun chil :: "bool list \<Rightarrow> bool list \<Rightarrow> bool list \<Rightarrow> bool list" where
  "chil (a # as) (b # bs) (c # cs) = bchi a b c # chil as bs cs"
| "chil [] bs cs = []"
| "chil as [] cs = []"
| "chil as bs [] = []"

definition rot1 :: "bool list \<Rightarrow> bool list" where
  "rot1 bs = last bs # butlast bs"

primrec rotb :: "nat \<Rightarrow> bool list \<Rightarrow> bool list" where
  "rotb 0 bs = bs"
| "rotb (Suc k) bs = rotb k (rot1 bs)"

section \<open>The round in stages\<close>

text \<open>
  The steps of a round as functions on the list of 25 lanes, for any representation of
  a lane: \<open>X\<close> is XOR, \<open>R k\<close> rotation to the left by \<open>k\<close>, and \<open>C a b c\<close> the map
  \<open>a XOR (NOT b AND c)\<close>.  \<open>theta_g\<close> is Theta (column parities, their combination,
  and the XOR into every lane), \<open>chi_g\<close> is Chi, \<open>iota_g\<close> is Iota.  \<open>rhopi_code_g\<close> is
  the block of the macro \<^verbatim>\<open>KECCAK_ROUND\<close> between Theta and Chi, with its lanes and
  rotation counts; \<open>rhopi_std_g\<close> is Rho followed by Pi with the lanes and offsets of
  the Keccak reference.
\<close>

definition th_cols :: "('a \<Rightarrow> 'a \<Rightarrow> 'a) \<Rightarrow> 'a list \<Rightarrow> 'a list" where
  "th_cols X s =
    [X (s ! 0) (X (s ! 5) (X (s ! 10) (X (s ! 15) (s ! 20)))),
     X (s ! 1) (X (s ! 6) (X (s ! 11) (X (s ! 16) (s ! 21)))),
     X (s ! 2) (X (s ! 7) (X (s ! 12) (X (s ! 17) (s ! 22)))),
     X (s ! 3) (X (s ! 8) (X (s ! 13) (X (s ! 18) (s ! 23)))),
     X (s ! 4) (X (s ! 9) (X (s ! 14) (X (s ! 19) (s ! 24))))]"

definition th_dls :: "('a \<Rightarrow> 'a \<Rightarrow> 'a) \<Rightarrow> (nat \<Rightarrow> 'a \<Rightarrow> 'a) \<Rightarrow> 'a list \<Rightarrow> 'a list" where
  "th_dls X R c =
    [X (c ! 4) (R 1 (c ! 1)),
     X (c ! 0) (R 1 (c ! 2)),
     X (c ! 1) (R 1 (c ! 3)),
     X (c ! 2) (R 1 (c ! 4)),
     X (c ! 3) (R 1 (c ! 0))]"

definition th_app :: "('a \<Rightarrow> 'a \<Rightarrow> 'a) \<Rightarrow> 'a list \<Rightarrow> 'a list \<Rightarrow> 'a list" where
  "th_app X d s =
    [X (s ! 0) (d ! 0), X (s ! 1) (d ! 1), X (s ! 2) (d ! 2), X (s ! 3) (d ! 3), X (s ! 4) (d ! 4),
      X (s ! 5) (d ! 0), X (s ! 6) (d ! 1), X (s ! 7) (d ! 2), X (s ! 8) (d ! 3), X (s ! 9) (d ! 4),
      X (s ! 10) (d ! 0),
      X (s ! 11) (d ! 1),
      X (s ! 12) (d ! 2),
      X (s ! 13) (d ! 3),
      X (s ! 14) (d ! 4),
      X (s ! 15) (d ! 0),
      X (s ! 16) (d ! 1),
      X (s ! 17) (d ! 2),
      X (s ! 18) (d ! 3),
      X (s ! 19) (d ! 4),
      X (s ! 20) (d ! 0),
      X (s ! 21) (d ! 1),
      X (s ! 22) (d ! 2),
      X (s ! 23) (d ! 3),
      X (s ! 24) (d ! 4)]"

definition theta_g :: "('a \<Rightarrow> 'a \<Rightarrow> 'a) \<Rightarrow> (nat \<Rightarrow> 'a \<Rightarrow> 'a) \<Rightarrow> 'a list \<Rightarrow> 'a list" where
  "theta_g X R s = th_app X (th_dls X R (th_cols X s)) s"

definition rhopi_code_g :: "(nat \<Rightarrow> 'a \<Rightarrow> 'a) \<Rightarrow> 'a list \<Rightarrow> 'a list" where
  "rhopi_code_g R s =
    [s ! 0, R 1 (s ! 5), R 62 (s ! 10), R 28 (s ! 15), R 27 (s ! 20),
      R 36 (s ! 1), R 44 (s ! 6), R 6 (s ! 11), R 55 (s ! 16), R 20 (s ! 21),
      R 3 (s ! 2), R 10 (s ! 7), R 43 (s ! 12), R 25 (s ! 17), R 39 (s ! 22),
      R 41 (s ! 3), R 45 (s ! 8), R 15 (s ! 13), R 21 (s ! 18), R 8 (s ! 23),
      R 18 (s ! 4), R 2 (s ! 9), R 61 (s ! 14), R 56 (s ! 19), R 14 (s ! 24)]"

definition rhopi_std_g :: "(nat \<Rightarrow> 'a \<Rightarrow> 'a) \<Rightarrow> 'a list \<Rightarrow> 'a list" where
  "rhopi_std_g R s =
    [s ! 0, R 44 (s ! 6), R 43 (s ! 12), R 21 (s ! 18), R 14 (s ! 24),
      R 28 (s ! 3), R 20 (s ! 9), R 3 (s ! 10), R 45 (s ! 16), R 61 (s ! 22),
      R 1 (s ! 1), R 6 (s ! 7), R 25 (s ! 13), R 8 (s ! 19), R 18 (s ! 20),
      R 27 (s ! 4), R 36 (s ! 5), R 10 (s ! 11), R 15 (s ! 17), R 56 (s ! 23),
      R 62 (s ! 2), R 55 (s ! 8), R 39 (s ! 14), R 41 (s ! 15), R 2 (s ! 21)]"

definition chi_g :: "('a \<Rightarrow> 'a \<Rightarrow> 'a \<Rightarrow> 'a) \<Rightarrow> 'a list \<Rightarrow> 'a list" where
  "chi_g C s =
    [C (s ! 0) (s ! 1) (s ! 2),
     C (s ! 1) (s ! 2) (s ! 3),
     C (s ! 2) (s ! 3) (s ! 4),
     C (s ! 3) (s ! 4) (s ! 0),
     C (s ! 4) (s ! 0) (s ! 1),
      C (s ! 5) (s ! 6) (s ! 7),
      C (s ! 6) (s ! 7) (s ! 8),
      C (s ! 7) (s ! 8) (s ! 9),
      C (s ! 8) (s ! 9) (s ! 5),
      C (s ! 9) (s ! 5) (s ! 6),
      C (s ! 10) (s ! 11) (s ! 12),
      C (s ! 11) (s ! 12) (s ! 13),
      C (s ! 12) (s ! 13) (s ! 14),
      C (s ! 13) (s ! 14) (s ! 10),
      C (s ! 14) (s ! 10) (s ! 11),
      C (s ! 15) (s ! 16) (s ! 17),
      C (s ! 16) (s ! 17) (s ! 18),
      C (s ! 17) (s ! 18) (s ! 19),
      C (s ! 18) (s ! 19) (s ! 15),
      C (s ! 19) (s ! 15) (s ! 16),
      C (s ! 20) (s ! 21) (s ! 22),
      C (s ! 21) (s ! 22) (s ! 23),
      C (s ! 22) (s ! 23) (s ! 24),
      C (s ! 23) (s ! 24) (s ! 20),
      C (s ! 24) (s ! 20) (s ! 21)]"

definition iota_g :: "('a \<Rightarrow> 'a \<Rightarrow> 'a) \<Rightarrow> 'a \<Rightarrow> 'a list \<Rightarrow> 'a list" where
  "iota_g X rc s =
    [X (s ! 0) rc, s ! 1, s ! 2, s ! 3, s ! 4,
      s ! 5, s ! 6, s ! 7, s ! 8, s ! 9,
      s ! 10, s ! 11, s ! 12, s ! 13, s ! 14,
      s ! 15, s ! 16, s ! 17, s ! 18, s ! 19,
      s ! 20, s ! 21, s ! 22, s ! 23, s ! 24]"

definition chiw :: "u64 \<Rightarrow> u64 \<Rightarrow> u64 \<Rightarrow> u64" where
  "chiw a b c = a XOR (NOT b AND c)"

text \<open>A state of 25 bit-sliced lanes, and the round of \<^verbatim>\<open>keccakf1600\<close> on such states.\<close>

definition wfb :: "bool list list \<Rightarrow> bool" where
  "wfb s \<longleftrightarrow> length s = 25 \<and> list_all (\<lambda>l. length l = 64) s"

definition round_code_b :: "bool list \<Rightarrow> bool list list \<Rightarrow> bool list list" where
  "round_code_b rc s = iota_g xorl rc (chi_g chil (rhopi_code_g rotb (theta_g xorl rotb s)))"

text \<open>
  A round constant has bits at the positions 0, 1, 3, 7, 15, 31 and 63 only.  \<open>RC7\<close>
  lists these seven bits for each of the 24 entries of \<^verbatim>\<open>KECCAK_RC\<close>, and \<open>rc_bits7\<close>
  spreads seven bits over a bit-sliced lane.
\<close>

definition rc_bits7 :: "bool list \<Rightarrow> bool list" where
  "rc_bits7 r =
    [r ! 0, r ! 1, False, r ! 2, False, False, False, r ! 3,
     False, False, False, False, False, False, False, r ! 4,
     False, False, False, False, False, False, False, False,
     False, False, False, False, False, False, False, r ! 5,
     False, False, False, False, False, False, False, False,
     False, False, False, False, False, False, False, False,
     False, False, False, False, False, False, False, False,
     False, False, False, False, False, False, False, r ! 6]"

definition RC7 :: "bool list list" where
  "RC7 =
    [[True, False, False, False, False, False, False],
     [False, True, False, True, True, False, False],
     [False, True, True, True, True, False, True],
     [False, False, False, False, True, True, True],
     [True, True, True, True, True, False, False],
     [True, False, False, False, False, True, False],
     [True, False, False, True, True, True, True],
     [True, False, True, False, True, False, True],
     [False, True, True, True, False, False, False],
     [False, False, True, True, False, False, False],
     [True, False, True, False, True, True, False],
     [False, True, True, False, False, True, False],
     [True, True, True, True, True, True, False],
     [True, True, True, True, False, False, True],
     [True, False, True, True, True, False, True],
     [True, True, False, False, True, False, True],
     [False, True, False, False, True, False, True],
     [False, False, False, True, False, False, True],
     [False, True, True, False, True, False, False],
     [False, True, True, False, False, True, True],
     [True, False, False, True, True, True, True],
     [False, False, False, True, True, False, True],
     [True, False, False, False, False, True, False],
     [False, False, True, False, True, True, True]]"

definition perm_code_b :: "bool list list \<Rightarrow> bool list list" where
  "perm_code_b s = fold (\<lambda>r. round_code_b (rc_bits7 r)) RC7 s"

text \<open>Sixty-four zero bits.\<close>

definition z64 :: "bool list" where
  "z64 =
    [False, False, False, False, False, False, False, False,
     False, False, False, False, False, False, False, False,
     False, False, False, False, False, False, False, False,
     False, False, False, False, False, False, False, False,
     False, False, False, False, False, False, False, False,
     False, False, False, False, False, False, False, False,
     False, False, False, False, False, False, False, False,
     False, False, False, False, False, False, False, False]"

subsection \<open>Digests as hexadecimal strings\<close>

definition hex_digit :: "nat \<Rightarrow> char" where
  "hex_digit n = ''0123456789abcdef'' ! n"

definition hex_of_bytes :: "u8 list \<Rightarrow> string" where
  "hex_of_bytes bs = concat (map (\<lambda>b. [hex_digit (unat b div 16), hex_digit (unat b mod 16)]) bs)"

section \<open>The Keccak-f[1600] permutation of the standard\<close>

text \<open>
  The permutation the claims measure \<^verbatim>\<open>keccakf1600\<close> against, written from FIPS 202,
  section 3.2 and 3.3, on the same list of 25 lanes (\<open>A ! (5 * y + x)\<close> is lane
  \<open>(x, y)\<close>, bit \<open>z\<close> of a lane has weight \<open>2 ^ z\<close>):
  \<^item> Theta: \<open>C[x]\<close> is the XOR of the five lanes of column \<open>x\<close>,
    \<open>D[x] = C[x - 1] XOR rot(C[x + 1], 1)\<close>, and every lane \<open>(x, y)\<close> is XORed with \<open>D[x]\<close>;
  \<^item> Rho: lane \<open>(0, 0)\<close> stays; starting from \<open>(x, y) = (1, 0)\<close>, for \<open>t = 0, \<dots>, 23\<close>
    lane \<open>(x, y)\<close> is rotated left by \<open>(t + 1)(t + 2)/2\<close> and \<open>(x, y)\<close> becomes
    \<open>(y, (2x + 3y) mod 5)\<close>;
  \<^item> Pi: the new lane \<open>(x, y)\<close> is the old lane \<open>((x + 3y) mod 5, x)\<close>;
  \<^item> Chi: lane \<open>(x, y)\<close> is XORed with \<open>NOT lane (x + 1, y) AND lane (x + 2, y)\<close>;
  \<^item> Iota: lane \<open>(0, 0)\<close> is XORed with the round constant, whose bit \<open>2 ^ j - 1\<close> is
    \<open>rc(j + 7 i)\<close> for \<open>j = 0, \<dots>, 6\<close> in round \<open>i\<close>, the other bits being 0; \<open>rc(t)\<close> is
    the output of the 8-bit linear feedback shift register after \<open>t mod 255\<close> steps.
  A round is Iota after Chi after Pi after Rho after Theta, and the permutation is the
  rounds 0 to 23.
\<close>

definition lane_at :: "lanes \<Rightarrow> nat \<Rightarrow> nat \<Rightarrow> u64" where
  "lane_at A x y = A ! (5 * y + x)"

definition of_lanes :: "(nat \<Rightarrow> nat \<Rightarrow> u64) \<Rightarrow> lanes" where
  "of_lanes f = map (\<lambda>i. f (i mod 5) (i div 5)) [0..<25]"

definition theta_C :: "lanes \<Rightarrow> nat \<Rightarrow> u64" where
  "theta_C A x =
     lane_at A x 0 XOR lane_at A x 1 XOR lane_at A x 2 XOR lane_at A x 3 XOR lane_at A x 4"

definition theta_D :: "lanes \<Rightarrow> nat \<Rightarrow> u64" where
  "theta_D A x = theta_C A ((x + 4) mod 5) XOR word_rotl 1 (theta_C A ((x + 1) mod 5))"

definition theta_std :: "lanes \<Rightarrow> lanes" where
  "theta_std A = of_lanes (\<lambda>x y. lane_at A x y XOR theta_D A x)"

fun rho_walk :: "nat \<Rightarrow> nat \<times> nat" where
  "rho_walk 0 = (1, 0)"
| "rho_walk (Suc t) = (case rho_walk t of (x, y) \<Rightarrow> (y, (2 * x + 3 * y) mod 5))"

definition rho_offset :: "nat \<Rightarrow> nat \<Rightarrow> nat" where
  "rho_offset x y =
     (case find (\<lambda>t. rho_walk t = (x, y)) [0..<24] of
        None \<Rightarrow> 0
      | Some t \<Rightarrow> ((t + 1) * (t + 2) div 2) mod 64)"

definition rho_std :: "lanes \<Rightarrow> lanes" where
  "rho_std A = of_lanes (\<lambda>x y. word_rotl (rho_offset x y) (lane_at A x y))"

definition pi_std :: "lanes \<Rightarrow> lanes" where
  "pi_std A = of_lanes (\<lambda>x y. lane_at A ((x + 3 * y) mod 5) x)"

definition chi_std :: "lanes \<Rightarrow> lanes" where
  "chi_std A =
     of_lanes (\<lambda>x y. lane_at A x y XOR (NOT (lane_at A ((x + 1) mod 5) y) AND lane_at A ((x + 2) mod 5) y))"

fun lfsr_step :: "bool list \<Rightarrow> bool list" where
  "lfsr_step [r0, r1, r2, r3, r4, r5, r6, r7] =
     [r7, r0, r1, r2, r3 \<noteq> r7, r4 \<noteq> r7, r5 \<noteq> r7, r6]"
| "lfsr_step rs = rs"

definition rc_bit :: "nat \<Rightarrow> bool" where
  "rc_bit t = hd ((lfsr_step ^^ (t mod 255)) [True, False, False, False, False, False, False, False])"

definition RC_std :: "nat \<Rightarrow> u64" where
  "RC_std i = (\<Sum>j\<leftarrow>[0..<7]. if rc_bit (j + 7 * i) then 2 ^ (2 ^ j - 1) else 0)"

definition iota_std :: "nat \<Rightarrow> lanes \<Rightarrow> lanes" where
  "iota_std i A = A[0 := A ! 0 XOR RC_std i]"

definition round_std :: "nat \<Rightarrow> lanes \<Rightarrow> lanes" where
  "round_std i A = iota_std i (chi_std (pi_std (rho_std (theta_std A))))"

definition keccak_f1600_std :: "lanes \<Rightarrow> lanes" where
  "keccak_f1600_std A = fold round_std [0..<24] A"

text \<open>The round of the standard on bit-sliced lanes.\<close>

definition round_std_b :: "bool list \<Rightarrow> bool list list \<Rightarrow> bool list list" where
  "round_std_b rc s = iota_g xorl rc (chi_g chil (rhopi_std_g rotb (theta_g xorl rotb s)))"

definition perm_std_b :: "bool list list \<Rightarrow> bool list list" where
  "perm_std_b s = fold (\<lambda>r. round_std_b (rc_bits7 r)) RC7 s"

section \<open>The byte view of the state\<close>

lemma length_st_xor: "length (st_xor A i b) = length A"
  by (simp add: st_xor_def)

lemma byte_xor_push:
  fixes w :: u64 and b :: u8
  assumes "p < 8" "q < 8"
  shows "(ucast (drop_bit (8 * q) (w XOR push_bit (8 * p) (ucast b))) :: u8) =
         ucast (drop_bit (8 * q) w) XOR (if q = p then b else 0)"
proof (rule bit_eqI)
  fix n
  assume "possible_bit TYPE(u8) n"
  then have n: "n < 8" by simp
  have hi: "\<not> bit b m" if "8 \<le> m" for m
    using that bit_imp_le_length [of b m] by auto
  show "bit (ucast (drop_bit (8 * q) (w XOR push_bit (8 * p) (ucast b))) :: u8) n =
        bit (ucast (drop_bit (8 * q) w) XOR (if q = p then b else 0)) n"
  proof (cases "q = p")
    case True
    then show ?thesis using n assms by (auto simp: bit_simps)
  next
    case False
    have "\<not> (8 * p \<le> 8 * q + n \<and> bit b (8 * q + n - 8 * p))"
    proof (cases "p < q")
      case True
      then have "8 \<le> 8 * q + n - 8 * p" by arith
      then show ?thesis using hi by blast
    next
      case False
      with \<open>q \<noteq> p\<close> have "\<not> 8 * p \<le> 8 * q + n" using n by arith
      then show ?thesis by blast
    qed
    then show ?thesis using n assms False by (auto simp: bit_simps)
  qed
qed

lemma st_get_st_xor:
  assumes "length A = 25" "i < 200" "j < 200"
  shows "st_get (st_xor A i b) j = (if j = i then st_get A i XOR b else st_get A j)"
proof (cases "j div 8 = i div 8")
  case False
  then show ?thesis using assms by (auto simp: st_get_def st_xor_def)
next
  case True
  have i8: "i div 8 < length A" using assms by simp
  have eq: "j = i \<longleftrightarrow> j mod 8 = i mod 8"
    using True by (metis div_mult_mod_eq)
  have "st_get (st_xor A i b) j =
        ucast (drop_bit (8 * (j mod 8)) ((A ! (i div 8)) XOR push_bit (8 * (i mod 8)) (ucast b)))"
    by (simp only: st_get_def st_xor_def True nth_list_update_eq i8)
  also have "\<dots> = ucast (drop_bit (8 * (j mod 8)) (A ! (i div 8))) XOR (if j mod 8 = i mod 8 then b else 0)"
    by (rule byte_xor_push) simp_all
  finally show ?thesis using True eq
    by (simp add: st_get_def)
qed

section \<open>Termination of the sponge loops\<close>

lemma size_sub_simple:
  assumes "y \<le> x" "x < 2 ^ 64"
  shows "size_sub x y = x - y"
proof -
  have "x + 2 ^ 64 - y = (x - y) + 2 ^ 64" using assms by simp
  then have "size_sub x y = ((x - y) + 2 ^ 64) mod 2 ^ 64" by (simp only: size_sub_def)
  also have "\<dots> = (x - y) mod 2 ^ 64" by (simp only: mod_add_self2)
  also have "\<dots> = x - y" using assms by (intro mod_less) simp
  finally show ?thesis .
qed

lemma size_sub_pos:
  assumes "x < 2 ^ 64" "y < 2 ^ 64" "x \<noteq> y"
  shows "0 < size_sub x y"
proof (cases "y \<le> x")
  case True
  then show ?thesis using assms by (simp add: size_sub_simple)
next
  case False
  then have "x + 2 ^ 64 - y < 2 ^ 64" "0 < x + 2 ^ 64 - y" using assms by simp_all
  then show ?thesis by (simp only: size_sub_def mod_less)
qed

lemma absorb_blocks_total:
  "0 < rate \<Longrightarrow> \<exists>r. absorb_blocks rate A inp inlen = Some r"
proof (induction inlen arbitrary: A inp rule: less_induct)
  case (less inlen)
  show ?case
  proof (cases "rate \<le> inlen")
    case False
    then show ?thesis by (subst absorb_blocks.simps) simp
  next
    case True
    show ?thesis
    proof (cases "xor_in A 0 inp 0 rate")
      case (Inl e)
      with True show ?thesis by (subst absorb_blocks.simps) simp
    next
      case (Inr A')
      from True less.prems have "inlen - rate < inlen" by simp
      from less.IH [OF this less.prems]
      obtain r where "absorb_blocks rate (keccakf1600 A') (in_adv inp rate) (inlen - rate) = Some r"
        by blast
      with True Inr show ?thesis by (subst absorb_blocks.simps) simp
    qed
  qed
qed

lemma absorb_blocks_rate0: "absorb_blocks 0 A inp inlen = None"
proof -
  have "rate \<noteq> 0" if h: "absorb_blocks rate A inp inlen = Some y" for rate y
  proof (rule absorb_blocks.raw_induct [where P = "\<lambda>rate A inp inlen y. rate \<noteq> 0", OF _ h])
    fix f :: "nat \<Rightarrow> lanes \<Rightarrow> u8 list option \<Rightarrow> nat \<Rightarrow> (fault + (lanes \<times> u8 list option \<times> nat)) option"
    fix rate A inp inlen y
    assume IH: "\<And>rate A inp inlen y. f rate A inp inlen = Some y \<Longrightarrow> rate \<noteq> 0"
    assume step: "(if rate \<le> inlen
        then case xor_in A 0 inp 0 rate of Inl e \<Rightarrow> Some (Inl e)
             | Inr A' \<Rightarrow> f rate (keccakf1600 A') (in_adv inp rate) (inlen - rate)
        else Some (Inr (A, inp, inlen))) = Some y"
    show "rate \<noteq> 0"
    proof
      assume "rate = 0"
      with step have "f 0 (keccakf1600 A) (in_adv inp 0) inlen = Some y" by simp
      from IH [OF this] show False by simp
    qed
  qed
  then show ?thesis by (cases "absorb_blocks 0 A inp inlen") auto
qed

lemma squeeze_loop_rate0:
  assumes "outlen \<noteq> 0"
  shows "squeeze_loop 0 A 0 outlen out = None"
proof -
  have never: "\<not> (rate = 0 \<and> pos = 0 \<and> outlen \<noteq> 0)"
    if h: "squeeze_loop rate A pos outlen out = Some y" for rate A pos outlen out y
  proof (rule squeeze_loop.raw_induct
          [where P = "\<lambda>rate A pos outlen out y. \<not> (rate = 0 \<and> pos = 0 \<and> outlen \<noteq> 0)", OF _ h])
    fix f :: "nat \<Rightarrow> lanes \<Rightarrow> nat \<Rightarrow> nat \<Rightarrow> u8 list \<Rightarrow> (fault + (lanes \<times> nat \<times> u8 list)) option"
    fix rate A pos outlen out y
    assume IH: "\<And>rate A pos outlen out y. f rate A pos outlen out = Some y
                  \<Longrightarrow> \<not> (rate = 0 \<and> pos = 0 \<and> outlen \<noteq> 0)"
    assume step: "(if outlen \<noteq> 0
        then let A1 = if pos = rate then keccakf1600 A else A;
                 pos1 = if pos = rate then 0 else pos; t = size_sub rate pos1;
                 t = if outlen < t then outlen else t
             in case st_read A1 pos1 t of Inl e \<Rightarrow> Some (Inl e)
                | Inr bs \<Rightarrow> f rate A1 (pos1 + t) (outlen - t) (out @ bs)
        else Some (Inr (A, pos, out))) = Some y"
    show "\<not> (rate = 0 \<and> pos = 0 \<and> outlen \<noteq> 0)"
    proof
      assume z: "rate = 0 \<and> pos = 0 \<and> outlen \<noteq> 0"
      have "size_sub 0 0 = 0" by (simp add: size_sub_def)
      with step z have "f 0 (keccakf1600 A) 0 outlen out = Some y"
        by (simp add: st_read_def)
      from IH [OF this] z show False by simp
    qed
  qed
  show ?thesis
  proof (cases "squeeze_loop 0 A 0 outlen out")
    case None
    then show ?thesis .
  next
    case (Some y)
    from never [OF this] assms show ?thesis by simp
  qed
qed

lemma squeeze_loop_total:
  assumes "0 < rate" "rate < 2 ^ 64" "pos < 2 ^ 64"
  shows "\<exists>r. squeeze_loop rate A pos outlen out = Some r"
  using assms(3)
proof (induction outlen arbitrary: A pos out rule: less_induct)
  case (less outlen)
  show ?case
  proof (cases "outlen = 0")
    case True
    then show ?thesis by (subst squeeze_loop.simps) simp
  next
    case False
    define A1 where "A1 = (if pos = rate then keccakf1600 A else A)"
    define pos1 where "pos1 = (if pos = rate then 0 else pos)"
    define t where "t = (if outlen < size_sub rate pos1 then outlen else size_sub rate pos1)"
    have p1: "pos1 < 2 ^ 64" "pos1 \<noteq> rate"
      using less.prems assms by (auto simp: pos1_def)
    then have "0 < size_sub rate pos1" using assms by (intro size_sub_pos) auto
    then have t: "0 < t" "t \<le> outlen" using False by (auto simp: t_def)
    have unf: "squeeze_loop rate A pos outlen out =
        (case st_read A1 pos1 t of Inl e \<Rightarrow> Some (Inl e)
         | Inr bs \<Rightarrow> squeeze_loop rate A1 (pos1 + t) (outlen - t) (out @ bs))"
      unfolding A1_def pos1_def t_def
      by (subst squeeze_loop.simps) (simp only: False Let_def not_False_eq_True if_True)
    show ?thesis
    proof (cases "st_read A1 pos1 t")
      case (Inl e)
      then show ?thesis by (simp add: unf)
    next
      case (Inr bs)
      then have "pos1 + t \<le> 200" by (auto simp: st_read_def split: if_splits)
      then have "pos1 + t < 2 ^ 64" by simp
      moreover have "outlen - t < outlen" using t by simp
      ultimately obtain r where "squeeze_loop rate A1 (pos1 + t) (outlen - t) (out @ bs) = Some r"
        using less.IH by blast
      with Inr show ?thesis by (simp add: unf)
    qed
  qed
qed

section \<open>Claims about termination and the one-shot helpers\<close>

lemma keccak1600_absorb_total:
  assumes "0 < ctx_rate ctx"
  shows "\<exists>r. keccak1600_absorb ctx inp inlen = Some r"
proof (cases "absorb_head (ctx_rate ctx) (ctx_a ctx) (ctx_pos ctx) inp inlen")
  case (Inl e)
  then show ?thesis by (simp add: keccak1600_absorb_def)
next
  case (Inr h)
  obtain A1 pos1 inp1 inlen1 where h: "h = (A1, pos1, inp1, inlen1)" by (cases h) auto
  obtain r where r: "absorb_blocks (ctx_rate ctx) A1 inp1 inlen1 = Some r"
    using absorb_blocks_total [OF assms] by blast
  show ?thesis
    using Inr h r by (auto simp: keccak1600_absorb_def split: sum.splits prod.splits)
qed

lemma keccak1600_squeeze_total:
  assumes "0 < ctx_rate ctx" "ctx_rate ctx < 2 ^ 64" "ctx_pos ctx < 2 ^ 64"
  shows "\<exists>r. keccak1600_squeeze ctx outlen = Some r"
proof -
  obtain r where "squeeze_loop (ctx_rate ctx) (ctx_a ctx) (ctx_pos ctx) outlen [] = Some r"
    using squeeze_loop_total [OF assms] by blast
  then show ?thesis
    by (auto simp: keccak1600_squeeze_def split: sum.splits prod.splits)
qed

lemma keccak1600_absorb_rate0:
  assumes "ctx_rate ctx = 0" "ctx_pos ctx = 0"
  shows "keccak1600_absorb ctx inp inlen = None"
  using assms by (simp add: keccak1600_absorb_def absorb_head_def absorb_blocks_rate0)

lemma keccak1600_squeeze_rate0:
  assumes "ctx_rate ctx = 0" "ctx_pos ctx = 0" "outlen \<noteq> 0"
  shows "keccak1600_squeeze ctx outlen = None"
  using assms by (simp add: keccak1600_squeeze_def squeeze_loop_rate0)

text \<open>
  Claim C10.  With \<open>rate \<ge> 1\<close> (and \<^verbatim>\<open>rate\<close>, \<^verbatim>\<open>pos\<close> in the range of \<^verbatim>\<open>size_t\<close>)
  \<^verbatim>\<open>keccak1600_absorb\<close> and \<^verbatim>\<open>keccak1600_squeeze\<close> return for every input and
  output length.  \<^verbatim>\<open>keccak1600_init\<close> stores whatever rate it is given, and the
  precondition is needed: on a context with rate 0 (and position 0) the absorb loop
  never exits, and the squeeze loop never exits when at least one byte is requested.
\<close>

theorem sponge_loops_terminate:
  "(0 < ctx_rate ctx \<longrightarrow> (\<exists>r. keccak1600_absorb ctx inp inlen = Some r)) \<and>
   (0 < ctx_rate ctx \<and> ctx_rate ctx < 2 ^ 64 \<and> ctx_pos ctx < 2 ^ 64 \<longrightarrow>
      (\<exists>r. keccak1600_squeeze ctx outlen = Some r)) \<and>
   ctx_rate (keccak1600_init rate delim) = rate \<and>
   (ctx_rate ctx = 0 \<and> ctx_pos ctx = 0 \<longrightarrow> keccak1600_absorb ctx inp inlen = None) \<and>
   (ctx_rate ctx = 0 \<and> ctx_pos ctx = 0 \<and> outlen \<noteq> 0 \<longrightarrow> keccak1600_squeeze ctx outlen = None)"
  using keccak1600_absorb_total [of ctx inp inlen] keccak1600_squeeze_total [of ctx outlen]
    keccak1600_absorb_rate0 [of ctx inp inlen] keccak1600_squeeze_rate0 [of ctx outlen]
  by (simp add: keccak1600_init_def)

theorem sponge_loops_terminate_witness:
  "(\<exists>r. keccak1600_absorb (keccak1600_init 136 6) (Some [1, 2, 3]) 3 = Some r) \<and>
   (\<exists>r. keccak1600_squeeze (keccak1600_init 136 6) 300 = Some r) \<and>
   ctx_rate (keccak1600_init 0 6) = 0 \<and>
   keccak1600_absorb (keccak1600_init 0 6) (Some [1, 2, 3]) 3 = None \<and>
   keccak1600_squeeze (keccak1600_init 0 6) 1 = None"
  using sponge_loops_terminate [of "keccak1600_init 136 6" "Some [1, 2, 3]" 3 300 0 6]
    sponge_loops_terminate [of "keccak1600_init 0 6" "Some [1, 2, 3]" 3 1 0 6]
  by (simp add: keccak1600_init_def)

lemma sha3_hash_generic_sponge:
  "sha3_hash_generic inp inlen outlen rate delim = sponge_spec rate delim outlen inp inlen"
  by (simp add: sha3_hash_generic_def sponge_spec_def and_then_def
      split: option.splits sum.splits prod.splits)

text \<open>
  Claim C6.  Every one-shot helper is the sponge composition with the parameters of its
  variant, for every input pointer and input length.
\<close>

theorem one_shot_helpers_are_sponge:
  "keccak_256 inp inlen = sponge_spec 136 0x01 32 inp inlen \<and>
   sha3_224 inp inlen = sponge_spec 144 0x06 28 inp inlen \<and>
   sha3_256 inp inlen = sponge_spec 136 0x06 32 inp inlen \<and>
   sha3_384 inp inlen = sponge_spec 104 0x06 48 inp inlen \<and>
   sha3_512 inp inlen = sponge_spec 72 0x06 64 inp inlen"
  by (simp add: keccak_256_def sha3_224_def sha3_256_def sha3_384_def sha3_512_def
      sha3_hash_generic_sponge KECCAK_RATE_SHA3_224_def KECCAK_RATE_SHA3_256_def
      KECCAK_RATE_SHA3_384_def KECCAK_RATE_SHA3_512_def KECCAK_DELIM_KECCAK_def
      KECCAK_DELIM_SHA3_def)

section \<open>Shape of the state\<close>

lemma length_KECCAK_ROUND: "length (KECCAK_ROUND rc r) = 25"
  unfolding KECCAK_ROUND_def Let_def by (simp only: list.size)

lemma length_keccakf1600: "length (keccakf1600 s) = 25"
  unfolding keccakf1600_def Let_def by (rule length_KECCAK_ROUND)

lemma length_keccak_state_zero: "length keccak_state_zero = 25"
  by (simp add: keccak_state_zero_def)

lemma xor_in_length: "xor_in A off inp i n = Inr A' \<Longrightarrow> length A' = length A"
proof (induction n arbitrary: A i)
  case 0
  then show ?case by simp
next
  case (Suc n)
  then show ?case
    by (auto simp: st_xor_at_def length_st_xor split: sum.splits if_splits)
qed

lemma xor_in_zero_len: "xor_in A off inp i 0 = Inr A"
  by simp

section \<open>Finalize\<close>

lemma st_xor_at_ok: "i < 200 \<Longrightarrow> st_xor_at A i b = Inr (st_xor A i b)"
  by (simp add: st_xor_at_def)

lemma keccak1600_finalize_ok:
  assumes "ctx_pos ctx < 200" "1 \<le> ctx_rate ctx" "ctx_rate ctx \<le> 200"
  shows "keccak1600_finalize ctx =
     Inr (ctx\<lparr>ctx_a := keccakf1600 (st_xor (st_xor (ctx_a ctx) (ctx_pos ctx) (ctx_delim ctx))
                                  (ctx_rate ctx - 1) 0x80), ctx_pos := 0\<rparr>)"
proof -
  have "size_sub (ctx_rate ctx) 1 = ctx_rate ctx - 1"
    using assms by (intro size_sub_simple) simp_all
  then show ?thesis
    using assms by (simp add: keccak1600_finalize_def st_xor_at_ok)
qed

text \<open>
  Claim C5.  On a context with \<open>1 \<le> rate \<le> 200\<close> and \<open>pos < rate\<close>,
  \<^verbatim>\<open>keccak1600_finalize\<close> returns the context whose lanes are \<^verbatim>\<open>keccakf1600\<close>, applied
  once, of the state \<open>A\<close> that differs from the old state by \<open>delim\<close> XORed into byte
  \<open>pos\<close> and \<open>0x80\<close> XORed into byte \<open>rate - 1\<close> (both into the same byte when
  \<open>pos = rate - 1\<close>); the position becomes 0 and \<open>rate\<close> and \<open>delim\<close> stay.
\<close>

theorem finalize_pads_and_permutes:
  assumes "length (ctx_a ctx) = 25" "1 \<le> ctx_rate ctx" "ctx_rate ctx \<le> 200"
    and "ctx_pos ctx < ctx_rate ctx"
  shows "\<exists>A. keccak1600_finalize ctx = Inr (ctx\<lparr>ctx_a := keccakf1600 A, ctx_pos := 0\<rparr>) \<and>
           length A = 25 \<and>
           (\<forall>i<200. st_get A i =
              st_get (ctx_a ctx) i XOR (if i = ctx_pos ctx then ctx_delim ctx else 0)
                                   XOR (if i = ctx_rate ctx - 1 then 0x80 else 0))"
proof -
  let ?A1 = "st_xor (ctx_a ctx) (ctx_pos ctx) (ctx_delim ctx)"
  let ?A2 = "st_xor ?A1 (ctx_rate ctx - 1) 0x80"
  have fin: "keccak1600_finalize ctx = Inr (ctx\<lparr>ctx_a := keccakf1600 ?A2, ctx_pos := 0\<rparr>)"
    using assms by (intro keccak1600_finalize_ok) simp_all
  have len: "length ?A1 = 25" "length ?A2 = 25"
    using assms by (simp_all add: length_st_xor)
  have bytes: "st_get ?A2 i =
      st_get (ctx_a ctx) i XOR (if i = ctx_pos ctx then ctx_delim ctx else 0)
                           XOR (if i = ctx_rate ctx - 1 then 0x80 else 0)" if "i < 200" for i
  proof -
    have e1: "st_get ?A1 j = (if j = ctx_pos ctx then st_get (ctx_a ctx) (ctx_pos ctx) XOR ctx_delim ctx
                              else st_get (ctx_a ctx) j)" if "j < 200" for j
      using that assms by (intro st_get_st_xor) simp_all
    have e2: "st_get ?A2 i = (if i = ctx_rate ctx - 1 then st_get ?A1 (ctx_rate ctx - 1) XOR 0x80
                              else st_get ?A1 i)"
      using len that assms by (intro st_get_st_xor) simp_all
    have r: "ctx_rate ctx - 1 < 200" using assms by simp
    show ?thesis
      by (simp only: e2 e1 [OF that] e1 [OF r]) (simp add: ac_simps)
  qed
  from fin len(2) bytes show ?thesis by blast
qed

theorem finalize_pads_and_permutes_witness:
  "length (ctx_a (keccak1600_init 136 6)) = 25 \<and>
   1 \<le> ctx_rate (keccak1600_init 136 6) \<and> ctx_rate (keccak1600_init 136 6) \<le> 200 \<and>
   ctx_pos (keccak1600_init 136 6) < ctx_rate (keccak1600_init 136 6) \<and>
   (\<exists>A. keccak1600_finalize (keccak1600_init 136 6) =
          Inr ((keccak1600_init 136 6)\<lparr>ctx_a := keccakf1600 A, ctx_pos := 0\<rparr>) \<and>
        length A = 25 \<and>
        (\<forall>i<200. st_get A i =
           st_get (ctx_a (keccak1600_init 136 6)) i
             XOR (if i = ctx_pos (keccak1600_init 136 6) then ctx_delim (keccak1600_init 136 6) else 0)
             XOR (if i = ctx_rate (keccak1600_init 136 6) - 1 then 0x80 else 0)))"
proof -
  have h: "length (ctx_a (keccak1600_init 136 6)) = 25"
    "1 \<le> ctx_rate (keccak1600_init 136 6)" "ctx_rate (keccak1600_init 136 6) \<le> 200"
    "ctx_pos (keccak1600_init 136 6) < ctx_rate (keccak1600_init 136 6)"
    by (simp_all add: keccak1600_init_def length_keccak_state_zero)
  from h finalize_pads_and_permutes [OF h] show ?thesis by blast
qed

section \<open>Squeezing within the rate window, and the position invariant\<close>

lemma squeeze_loop_done: "squeeze_loop rate A pos 0 out = Some (Inr (A, pos, out))"
  by (subst squeeze_loop.simps) simp

lemma squeeze_loop_step:
  assumes "outlen \<noteq> 0" "pos \<noteq> rate"
  shows "squeeze_loop rate A pos outlen out =
     (case st_read A pos (min (size_sub rate pos) outlen) of
        Inl e \<Rightarrow> Some (Inl e)
      | Inr bs \<Rightarrow> squeeze_loop rate A (pos + min (size_sub rate pos) outlen)
                    (outlen - min (size_sub rate pos) outlen) (out @ bs))"
proof -
  have m: "(if outlen < size_sub rate pos then outlen else size_sub rate pos) =
           min (size_sub rate pos) outlen"
    by (simp add: min_def)
  show ?thesis
    by (subst squeeze_loop.simps) (simp only: assms Let_def not_False_eq_True if_True if_False m)
qed

lemma squeeze_loop_permute:
  assumes "outlen \<noteq> 0"
  shows "squeeze_loop rate A rate outlen out =
     (case st_read (keccakf1600 A) 0 (min (size_sub rate 0) outlen) of
        Inl e \<Rightarrow> Some (Inl e)
      | Inr bs \<Rightarrow> squeeze_loop rate (keccakf1600 A) (0 + min (size_sub rate 0) outlen)
                    (outlen - min (size_sub rate 0) outlen) (out @ bs))"
proof -
  have m: "(if outlen < size_sub rate 0 then outlen else size_sub rate 0) =
           min (size_sub rate 0) outlen"
    by (simp add: min_def)
  show ?thesis
    by (subst squeeze_loop.simps) (simp only: assms Let_def not_False_eq_True if_True if_False m refl)
qed

lemma squeeze_loop_within:
  assumes "pos + outlen \<le> rate" "rate \<le> 200"
  shows "squeeze_loop rate A pos outlen out =
           Some (Inr (A, pos + outlen, out @ map (st_get A) [pos..<pos + outlen]))"
proof (cases "outlen = 0")
  case True
  then show ?thesis by (simp add: squeeze_loop_done)
next
  case False
  then have ne: "pos \<noteq> rate" using assms by auto
  have "size_sub rate pos = rate - pos" using assms by (intro size_sub_simple) simp_all
  then have m: "min (size_sub rate pos) outlen = outlen" using assms by simp
  show ?thesis
    using assms by (simp add: squeeze_loop_step [OF False ne] m st_read_def squeeze_loop_done)
qed

lemma keccak1600_squeeze_within:
  assumes "ctx_pos ctx + outlen \<le> ctx_rate ctx" "ctx_rate ctx \<le> 200"
  shows "keccak1600_squeeze ctx outlen =
     Some (Inr (ctx\<lparr>ctx_pos := ctx_pos ctx + outlen\<rparr>,
                map (st_get (ctx_a ctx)) [ctx_pos ctx..<ctx_pos ctx + outlen]))"
  by (simp add: keccak1600_squeeze_def squeeze_loop_within [OF assms])

text \<open>
  Claim C7, evaluated where it fails.  After \<^verbatim>\<open>keccak1600_init(136, 0x06)\<close> and
  \<^verbatim>\<open>keccak1600_finalize\<close> the position is below the rate, and squeezing exactly 136 bytes
  then returns with the position equal to the rate: the loop of \<^verbatim>\<open>keccak1600_squeeze\<close>
  tests \<^verbatim>\<open>pos == rate\<close> before it copies, not after.
\<close>

theorem squeeze_returns_with_pos_at_rate:
  "\<exists>c1 c2 out. keccak1600_finalize (keccak1600_init 136 0x06) = Inr c1 \<and>
      ctx_rate c1 = 136 \<and> ctx_pos c1 < ctx_rate c1 \<and>
      keccak1600_squeeze c1 136 = Some (Inr (c2, out)) \<and>
      length out = 136 \<and> ctx_rate c2 = 136 \<and> ctx_pos c2 = ctx_rate c2"
proof -
  let ?c0 = "keccak1600_init 136 0x06"
  let ?c1 = "?c0\<lparr>ctx_a := keccakf1600 (st_xor (st_xor (ctx_a ?c0) (ctx_pos ?c0) (ctx_delim ?c0))
                                  (ctx_rate ?c0 - 1) 0x80), ctx_pos := 0\<rparr>"
  have f: "keccak1600_finalize ?c0 = Inr ?c1"
    by (rule keccak1600_finalize_ok) (simp_all add: keccak1600_init_def)
  have s: "keccak1600_squeeze ?c1 136 =
      Some (Inr (?c1\<lparr>ctx_pos := ctx_pos ?c1 + 136\<rparr>,
                 map (st_get (ctx_a ?c1)) [ctx_pos ?c1..<ctx_pos ?c1 + 136]))"
    by (rule keccak1600_squeeze_within) (simp_all add: keccak1600_init_def)
  show ?thesis
    apply (rule exI [of _ ?c1])
    apply (rule exI [of _ "?c1\<lparr>ctx_pos := ctx_pos ?c1 + 136\<rparr>"])
    apply (rule exI [of _ "map (st_get (ctx_a ?c1)) [ctx_pos ?c1..<ctx_pos ?c1 + 136]"])
    apply (simp only: f s)
    apply (simp add: keccak1600_init_def)
    done
qed

section \<open>Zero-length input through an absent pointer\<close>

lemma in_adv_0: "in_adv inp 0 = inp"
  by (cases inp) (simp_all add: in_adv_def)

lemma absorb_blocks_exit:
  "inlen < rate \<Longrightarrow> absorb_blocks rate A inp inlen = Some (Inr (A, inp, inlen))"
  by (subst absorb_blocks.simps) simp

lemma keccak1600_absorb_empty:
  "keccak1600_absorb ctx inp 0 =
     (if ctx_rate ctx = 0 then None
      else if ctx_pos ctx = ctx_rate ctx
        then Some (Inr (ctx\<lparr>ctx_a := keccakf1600 (ctx_a ctx), ctx_pos := 0\<rparr>))
        else Some (Inr (ctx\<lparr>ctx_a := ctx_a ctx, ctx_pos := ctx_pos ctx\<rparr>)))"
proof (cases "ctx_rate ctx = 0")
  case True
  then show ?thesis
    by (simp add: keccak1600_absorb_def absorb_head_def absorb_blocks_rate0 in_adv_0 Let_def)
next
  case False
  then show ?thesis
    by (simp add: keccak1600_absorb_def absorb_head_def absorb_blocks_exit absorb_tail_def
        in_adv_0 Let_def)
qed

lemma sha3_hash_generic_empty:
  assumes "0 < rate" "rate \<le> 200" "outlen \<le> rate"
  shows "sha3_hash_generic inp 0 outlen rate delim =
     Some (Inr (map (st_get (keccakf1600 (st_xor (st_xor keccak_state_zero 0 delim) (rate - 1) 0x80)))
                  [0..<outlen]))"
proof -
  let ?c0 = "keccak1600_init rate delim"
  have a: "keccak1600_absorb ?c0 inp 0 = Some (Inr ?c0)"
    using assms by (simp add: keccak1600_absorb_empty) (simp add: keccak1600_init_def)
  let ?c2 = "?c0\<lparr>ctx_a := keccakf1600 (st_xor (st_xor (ctx_a ?c0) (ctx_pos ?c0) (ctx_delim ?c0))
                                  (ctx_rate ?c0 - 1) 0x80), ctx_pos := 0\<rparr>"
  have f: "keccak1600_finalize ?c0 = Inr ?c2"
    using assms by (intro keccak1600_finalize_ok) (simp_all add: keccak1600_init_def)
  have s: "keccak1600_squeeze ?c2 outlen =
      Some (Inr (?c2\<lparr>ctx_pos := ctx_pos ?c2 + outlen\<rparr>,
                 map (st_get (ctx_a ?c2)) [ctx_pos ?c2..<ctx_pos ?c2 + outlen]))"
    using assms by (intro keccak1600_squeeze_within) (simp_all add: keccak1600_init_def)
  show ?thesis
    by (simp only: sha3_hash_generic_def a f s option.case sum.case prod.case)
      (simp add: keccak1600_init_def)
qed

text \<open>
  With input length 0 a one-shot helper returns the same result whether the input pointer
  is absent or points to a buffer, and \<^verbatim>\<open>keccak1600_absorb\<close> with \<^verbatim>\<open>inlen = 0\<close> returns
  the same for every input pointer and never reads through it, on any context.
\<close>

lemma one_shot_empty_any_pointer:
  "keccak_256 inp 0 = keccak_256 None 0"
  "sha3_224 inp 0 = sha3_224 None 0"
  "sha3_256 inp 0 = sha3_256 None 0"
  "sha3_384 inp 0 = sha3_384 None 0"
  "sha3_512 inp 0 = sha3_512 None 0"
  by (simp_all add: keccak_256_def sha3_224_def sha3_256_def sha3_384_def sha3_512_def
      KECCAK_RATE_SHA3_224_def KECCAK_RATE_SHA3_256_def KECCAK_RATE_SHA3_384_def
      KECCAK_RATE_SHA3_512_def sha3_hash_generic_empty)

lemma absorb_empty_any_pointer:
  "keccak1600_absorb ctx inp 0 = keccak1600_absorb ctx None 0"
  "keccak1600_absorb ctx inp 0 \<noteq> Some (Inl NullDeref)"
  by (simp_all add: keccak1600_absorb_empty)

section \<open>Squeezing in pieces\<close>

lemma squeeze_loop_unfold:
  fixes A :: lanes and pos rate :: nat
  assumes "outlen \<noteq> 0" "0 < rate" "rate \<le> 200" "pos \<le> rate"
  shows "squeeze_loop rate A pos outlen out =
     squeeze_loop rate (if pos = rate then keccakf1600 A else A)
       ((if pos = rate then 0 else pos) + min (rate - (if pos = rate then 0 else pos)) outlen)
       (outlen - min (rate - (if pos = rate then 0 else pos)) outlen)
       (out @ map (st_get (if pos = rate then keccakf1600 A else A))
                [(if pos = rate then 0 else pos)..<
                 (if pos = rate then 0 else pos) + min (rate - (if pos = rate then 0 else pos)) outlen])"
proof (cases "pos = rate")
  case True
  have z: "size_sub rate 0 = rate" using assms by (simp add: size_sub_simple)
  have "st_read (keccakf1600 A) 0 (min rate outlen) =
          Inr (map (st_get (keccakf1600 A)) [0..<0 + min rate outlen])"
    using assms by (simp add: st_read_def)
  then show ?thesis
    by (simp add: True squeeze_loop_permute [OF assms(1)] z)
next
  case False
  have z: "size_sub rate pos = rate - pos" using assms by (intro size_sub_simple) simp_all
  have "st_read A pos (min (rate - pos) outlen) =
          Inr (map (st_get A) [pos..<pos + min (rate - pos) outlen])"
    using assms by (simp add: st_read_def)
  then show ?thesis
    by (simp add: False squeeze_loop_step [OF assms(1) False] z)
qed

lemma squeeze_loop_result:
  assumes "0 < rate" "rate \<le> 200" "pos \<le> rate"
  shows "\<exists>A' pos' bs. pos' \<le> rate \<and> length bs = n \<and>
           (\<forall>out. squeeze_loop rate A pos n out = Some (Inr (A', pos', out @ bs)))"
  using assms(3)
proof (induction n arbitrary: A pos rule: less_induct)
  case (less n)
  show ?case
  proof (cases "n = 0")
    case True
    then show ?thesis using less.prems by (auto simp: squeeze_loop_done)
  next
    case False
    define A1 where "A1 = (if pos = rate then keccakf1600 A else A)"
    define pos1 where "pos1 = (if pos = rate then 0 else pos)"
    define t where "t = min (rate - pos1) n"
    have p1: "pos1 < rate" using less.prems assms by (auto simp: pos1_def)
    then have t: "0 < t" "t \<le> n" "pos1 + t \<le> rate" using False by (auto simp: t_def)
    have unf: "squeeze_loop rate A pos n out =
        squeeze_loop rate A1 (pos1 + t) (n - t) (out @ map (st_get A1) [pos1..<pos1 + t])" for out
      unfolding A1_def pos1_def t_def
      by (rule squeeze_loop_unfold [OF False assms(1,2) less.prems])
    from t have "n - t < n" by simp
    from less.IH [OF this t(3)] obtain A' pos' bs where
      r: "pos' \<le> rate" "length bs = n - t"
         "\<And>out. squeeze_loop rate A1 (pos1 + t) (n - t) out = Some (Inr (A', pos', out @ bs))"
      by blast
    have "length (map (st_get A1) [pos1..<pos1 + t] @ bs) = n" using r(2) t by simp
    moreover have "squeeze_loop rate A pos n out =
        Some (Inr (A', pos', out @ (map (st_get A1) [pos1..<pos1 + t] @ bs)))" for out
      by (simp add: unf r(3))
    ultimately show ?thesis using r(1) by blast
  qed
qed

lemma squeeze_loop_split:
  assumes "0 < rate" "rate \<le> 200" "pos \<le> rate"
  shows "\<exists>A' pos' out'. squeeze_loop rate A pos k out = Some (Inr (A', pos', out')) \<and>
           pos' \<le> rate \<and>
           squeeze_loop rate A pos (k + m) out = squeeze_loop rate A' pos' m out'"
  using assms(3)
proof (induction k arbitrary: A pos out rule: less_induct)
  case (less k)
  show ?case
  proof (cases "k = 0")
    case True
    then show ?thesis using less.prems by (simp add: squeeze_loop_done)
  next
    case False
    define A1 where "A1 = (if pos = rate then keccakf1600 A else A)"
    define pos1 where "pos1 = (if pos = rate then 0 else pos)"
    have p1: "pos1 < rate" using less.prems assms by (auto simp: pos1_def)
    have unf: "n \<noteq> 0 \<Longrightarrow> squeeze_loop rate A pos n out =
        squeeze_loop rate A1 (pos1 + min (rate - pos1) n) (n - min (rate - pos1) n)
          (out @ map (st_get A1) [pos1..<pos1 + min (rate - pos1) n])" for n out
      unfolding A1_def pos1_def
      by (rule squeeze_loop_unfold [OF _ assms(1,2) less.prems])
    have km: "k + m \<noteq> 0" using False by simp
    show ?thesis
    proof (cases "rate - pos1 \<le> k")
      case True
      define t where "t = rate - pos1"
      have t: "0 < t" "t \<le> k" "pos1 + t \<le> rate" "min (rate - pos1) k = t"
        "min (rate - pos1) (k + m) = t" "k + m - t = (k - t) + m"
        using True p1 by (auto simp: t_def)
      then have "k - t < k" by simp
      have L: "squeeze_loop rate A pos k out =
          squeeze_loop rate A1 (pos1 + t) (k - t) (out @ map (st_get A1) [pos1..<pos1 + t])"
        using unf [OF False, of out] by (simp only: t(4))
      have R: "squeeze_loop rate A pos (k + m) out =
          squeeze_loop rate A1 (pos1 + t) ((k - t) + m) (out @ map (st_get A1) [pos1..<pos1 + t])"
        using unf [OF km, of out] by (simp only: t(5) t(6))
      from less.IH [OF \<open>k - t < k\<close> t(3), of A1 "out @ map (st_get A1) [pos1..<pos1 + t]"]
      show ?thesis
        by (simp only: L R)
    next
      case False
      then have k: "k < rate - pos1" by simp
      then have mk: "min (rate - pos1) k = k" by simp
      have first: "squeeze_loop rate A pos k out =
          Some (Inr (A1, pos1 + k, out @ map (st_get A1) [pos1..<pos1 + k]))"
        by (simp add: unf [OF \<open>k \<noteq> 0\<close>] mk squeeze_loop_done)
      have second: "squeeze_loop rate A pos (k + m) out =
          squeeze_loop rate A1 (pos1 + k) m (out @ map (st_get A1) [pos1..<pos1 + k])"
      proof (cases "m = 0")
        case True
        then show ?thesis by (simp add: first squeeze_loop_done)
      next
        case False
        have ne: "pos1 + k \<noteq> rate" "pos1 + k \<le> rate" using k by simp_all
        have mm: "min (rate - pos1) (k + m) = k + min (rate - (pos1 + k)) m"
          using k by arith
        have up: "[pos1..<pos1 + (k + min (rate - (pos1 + k)) m)] =
            [pos1..<pos1 + k] @ [pos1 + k..<pos1 + k + min (rate - (pos1 + k)) m]"
          using upt_add_eq_append [of pos1 "pos1 + k" "min (rate - (pos1 + k)) m"]
          by (simp only: add.assoc le_add1)
        have "squeeze_loop rate A1 (pos1 + k) m (out @ map (st_get A1) [pos1..<pos1 + k]) =
            squeeze_loop rate A1 (pos1 + k + min (rate - (pos1 + k)) m) (m - min (rate - (pos1 + k)) m)
              ((out @ map (st_get A1) [pos1..<pos1 + k]) @
                 map (st_get A1) [pos1 + k..<pos1 + k + min (rate - (pos1 + k)) m])"
          using squeeze_loop_unfold [OF False assms(1,2) ne(2), of A1] ne(1) by simp
        moreover have "squeeze_loop rate A pos (k + m) out =
            squeeze_loop rate A1 (pos1 + (k + min (rate - (pos1 + k)) m))
              (k + m - (k + min (rate - (pos1 + k)) m))
              (out @ map (st_get A1) [pos1..<pos1 + (k + min (rate - (pos1 + k)) m)])"
          using unf [OF km] by (simp only: mm)
        ultimately show ?thesis by (simp add: up add.assoc)
      qed
      from first second show ?thesis using k by simp
    qed
  qed
qed

text \<open>
  Claim C4.  On a context with \<open>1 \<le> rate \<le> 200\<close> and \<open>pos \<le> rate\<close> (every context
  that \<^verbatim>\<open>keccak1600_finalize\<close> or an earlier \<^verbatim>\<open>keccak1600_squeeze\<close> returned), squeezing
  \<open>k\<close> bytes and then \<open>n - k\<close> bytes yields the bytes, and the context, of one squeeze
  of \<open>n\<close> bytes.
\<close>

theorem squeeze_streaming_consistency:
  assumes "1 \<le> ctx_rate ctx" "ctx_rate ctx \<le> 200" "ctx_pos ctx \<le> ctx_rate ctx" "k \<le> n"
  shows "\<exists>c1 out1 c2 out2.
           keccak1600_squeeze ctx k = Some (Inr (c1, out1)) \<and>
           keccak1600_squeeze c1 (n - k) = Some (Inr (c2, out2)) \<and>
           keccak1600_squeeze ctx n = Some (Inr (c2, out1 @ out2)) \<and>
           length out1 = k \<and> length out2 = n - k"
proof -
  let ?r = "ctx_rate ctx"
  have r0: "0 < ?r" using assms by simp
  from squeeze_loop_split [OF r0 assms(2,3), of "ctx_a ctx" k "[]" "n - k"]
  obtain A1 pos1 out1 where
    s1: "squeeze_loop ?r (ctx_a ctx) (ctx_pos ctx) k [] = Some (Inr (A1, pos1, out1))"
    and p1: "pos1 \<le> ?r"
    and s2: "squeeze_loop ?r (ctx_a ctx) (ctx_pos ctx) (k + (n - k)) [] =
             squeeze_loop ?r A1 pos1 (n - k) out1"
    by blast
  from squeeze_loop_result [OF r0 assms(2,3), of k "ctx_a ctx"] s1
  have l1: "length out1 = k" by auto
  from squeeze_loop_result [OF r0 assms(2) p1, of "n - k" A1]
  obtain A2 pos2 out2 where l2: "length out2 = n - k"
    and s3: "\<And>out. squeeze_loop ?r A1 pos1 (n - k) out = Some (Inr (A2, pos2, out @ out2))"
    by blast
  let ?c1 = "ctx\<lparr>ctx_a := A1, ctx_pos := pos1\<rparr>"
  let ?c2 = "ctx\<lparr>ctx_a := A2, ctx_pos := pos2\<rparr>"
  have "keccak1600_squeeze ctx k = Some (Inr (?c1, out1))"
    by (simp add: keccak1600_squeeze_def s1)
  moreover have "keccak1600_squeeze ?c1 (n - k) = Some (Inr (?c2, out2))"
    using s3 [of "[]"] by (simp add: keccak1600_squeeze_def)
  moreover have "keccak1600_squeeze ctx n = Some (Inr (?c2, out1 @ out2))"
    using s2 s3 [of out1] assms(4) by (simp add: keccak1600_squeeze_def)
  ultimately show ?thesis using l1 l2 by blast
qed

theorem squeeze_streaming_consistency_witness:
  "1 \<le> ctx_rate (keccak1600_init 136 6) \<and> ctx_rate (keccak1600_init 136 6) \<le> 200 \<and>
   ctx_pos (keccak1600_init 136 6) \<le> ctx_rate (keccak1600_init 136 6) \<and> (136::nat) \<le> 300 \<and>
   (\<exists>c1 out1 c2 out2.
           keccak1600_squeeze (keccak1600_init 136 6) 136 = Some (Inr (c1, out1)) \<and>
           keccak1600_squeeze c1 (300 - 136) = Some (Inr (c2, out2)) \<and>
           keccak1600_squeeze (keccak1600_init 136 6) 300 = Some (Inr (c2, out1 @ out2)) \<and>
           length out1 = 136 \<and> length out2 = 300 - 136)"
proof -
  have h: "1 \<le> ctx_rate (keccak1600_init 136 6)" "ctx_rate (keccak1600_init 136 6) \<le> 200"
    "ctx_pos (keccak1600_init 136 6) \<le> ctx_rate (keccak1600_init 136 6)" "(136::nat) \<le> 300"
    by (simp_all add: keccak1600_init_def)
  from h squeeze_streaming_consistency [OF h] show ?thesis by blast
qed

section \<open>Absorb is byte-by-byte absorption\<close>

lemma absorb_bytes_Nil: "absorb_bytes rate [] s = s"
  by (simp add: absorb_bytes_def)

lemma absorb_bytes_Cons: "absorb_bytes rate (b # bs) s = absorb_bytes rate bs (absorb_byte rate b s)"
  by (simp add: absorb_bytes_def)

lemma absorb_bytes_append:
  "absorb_bytes rate (xs @ ys) s = absorb_bytes rate ys (absorb_bytes rate xs s)"
  by (simp add: absorb_bytes_def)

lemma absorb_bytes_pos:
  assumes "0 < rate" "snd s < rate"
  shows "snd (absorb_bytes rate bs s) < rate"
  using assms(2)
proof (induction bs arbitrary: s)
  case Nil
  then show ?case by (simp add: absorb_bytes_Nil)
next
  case (Cons b bs)
  have "snd (absorb_byte rate b s) < rate"
    using Cons.prems assms(1) by (cases s) (auto simp: absorb_byte_def)
  then show ?case using Cons.IH by (simp add: absorb_bytes_Cons)
qed

lemma absorb_bytes_length:
  assumes "length (fst s) = 25"
  shows "length (fst (absorb_bytes rate bs s)) = 25"
  using assms
proof (induction bs arbitrary: s)
  case Nil
  then show ?case by (simp add: absorb_bytes_Nil)
next
  case (Cons b bs)
  have "length (fst (absorb_byte rate b s)) = 25"
    using Cons.prems by (cases s) (auto simp: absorb_byte_def length_st_xor length_keccakf1600)
  then show ?case using Cons.IH by (simp add: absorb_bytes_Cons)
qed

text \<open>The byte loop, when it stays inside the rate window and the input buffer.\<close>

lemma xor_in_absorb_bytes:
  assumes "i + n \<le> length bs" "off + i + n \<le> rate" "rate \<le> 200"
  shows "\<exists>A'. xor_in A off (Some bs) i n = Inr A' \<and>
           absorb_bytes rate (take n (drop i bs)) (A, off + i) =
             (if 0 < n \<and> off + i + n = rate then (keccakf1600 A', 0) else (A', off + i + n))"
  using assms(1,2)
proof (induction n arbitrary: A i)
  case 0
  then show ?case by (simp add: absorb_bytes_Nil)
next
  case (Suc n)
  have i: "i < length bs" "off + i < 200" using Suc.prems assms(3) by simp_all
  have rd: "in_read (Some bs) i = Inr (bs ! i)" using i by (simp add: in_read_def)
  have tk: "take (Suc n) (drop i bs) = bs ! i # take n (drop (Suc i) bs)"
    using i by (simp add: take_Suc_conv_app_nth Cons_nth_drop_Suc [symmetric])
  have st: "absorb_byte rate (bs ! i) (A, off + i) = (st_xor A (off + i) (bs ! i), off + Suc i)"
    if "0 < n" using that Suc.prems by (simp add: absorb_byte_def)
  from Suc.prems have p: "Suc i + n \<le> length bs" "off + Suc i + n \<le> rate" by simp_all
  from Suc.IH [OF p, of "st_xor A (off + i) (bs ! i)"]
  obtain A' where A': "xor_in (st_xor A (off + i) (bs ! i)) off (Some bs) (Suc i) n = Inr A'"
    and ab: "absorb_bytes rate (take n (drop (Suc i) bs)) (st_xor A (off + i) (bs ! i), off + Suc i) =
             (if 0 < n \<and> off + Suc i + n = rate then (keccakf1600 A', 0) else (A', off + Suc i + n))"
    by blast
  have x: "xor_in A off (Some bs) i (Suc n) = Inr A'"
    using i A' by (simp add: rd st_xor_at_ok)
  show ?case
  proof (cases "n = 0")
    case True
    then have "A' = st_xor A (off + i) (bs ! i)" using A' by simp
    then show ?thesis
      using True x i tk by (simp add: absorb_bytes_Cons absorb_bytes_Nil absorb_byte_def)
  next
    case False
    then show ?thesis
      using x ab st by (simp add: tk absorb_bytes_Cons)
  qed
qed

lemma absorb_head_absorb_bytes:
  assumes "0 < rate" "rate \<le> 200" "pos < rate" "inlen \<le> length bs"
  shows "\<exists>t A1 pos1. t \<le> inlen \<and>
           absorb_head rate A pos (Some bs) inlen = Inr (A1, pos1, Some (drop t bs), inlen - t) \<and>
           absorb_bytes rate (take t bs) (A, pos) = (A1, pos1) \<and>
           (pos1 \<noteq> 0 \<longrightarrow> t = inlen)"
proof (cases "pos = 0")
  case True
  then show ?thesis
    by (intro exI [of _ 0]) (simp add: absorb_head_def absorb_bytes_Nil)
next
  case False
  define t where "t = min (rate - pos) inlen"
  have sz: "size_sub rate pos = rate - pos" using assms by (intro size_sub_simple) simp_all
  have tm: "(if inlen < rate - pos then inlen else rate - pos) = t" by (simp add: t_def min_def)
  have t: "t \<le> inlen" "0 + t \<le> length bs" "pos + 0 + t \<le> rate"
    using assms by (simp_all add: t_def)
  from xor_in_absorb_bytes [OF t(2,3) assms(2), of A]
  obtain A' where x: "xor_in A pos (Some bs) 0 t = Inr A'"
    and ab: "absorb_bytes rate (take t bs) (A, pos) =
             (if 0 < t \<and> pos + t = rate then (keccakf1600 A', 0) else (A', pos + t))"
    by auto
  have full: "0 < t" if "pos + t = rate" using that assms by simp
  have hd: "absorb_head rate A pos (Some bs) inlen =
      (if pos + t = rate then Inr (keccakf1600 A', 0, Some (drop t bs), inlen - t)
       else Inr (A', pos + t, Some (drop t bs), inlen - t))"
    using False by (simp add: absorb_head_def sz tm x in_adv_def Let_def)
  show ?thesis
  proof (cases "pos + t = rate")
    case True
    with hd ab full t(1) show ?thesis
      by (intro exI [of _ t] exI [of _ "keccakf1600 A'"] exI [of _ 0]) simp
  next
    case False
    then have "t = inlen" using assms by (auto simp: t_def min_def)
    with hd ab False show ?thesis
      by (intro exI [of _ t] exI [of _ A'] exI [of _ "pos + t"]) simp
  qed
qed

lemma absorb_blocks_absorb_bytes:
  assumes "0 < rate" "rate \<le> 200"
  shows "inlen \<le> length bs \<Longrightarrow>
         \<exists>A'. absorb_blocks rate A (Some bs) inlen =
                 Some (Inr (A', Some (drop (inlen - inlen mod rate) bs), inlen mod rate)) \<and>
               absorb_bytes rate (take (inlen - inlen mod rate) bs) (A, 0) = (A', 0)"
proof (induction inlen arbitrary: A bs rule: less_induct)
  case (less inlen)
  show ?case
  proof (cases "inlen < rate")
    case True
    then show ?thesis by (simp add: absorb_blocks_exit absorb_bytes_Nil)
  next
    case False
    then have ge: "rate \<le> inlen" by simp
    have b: "0 + rate \<le> length bs" "0 + 0 + rate \<le> rate" using ge less.prems by simp_all
    from xor_in_absorb_bytes [OF b assms(2), of A]
    obtain A1 where x: "xor_in A 0 (Some bs) 0 rate = Inr A1"
      and ab: "absorb_bytes rate (take rate bs) (A, 0) = (keccakf1600 A1, 0)"
      using assms(1) by auto
    have lt: "inlen - rate < inlen" using ge assms(1) by simp
    have le: "inlen - rate \<le> length (drop rate bs)" using less.prems by simp
    from less.IH [OF lt le, of "keccakf1600 A1"]
    obtain A' where
      r: "absorb_blocks rate (keccakf1600 A1) (Some (drop rate bs)) (inlen - rate) =
            Some (Inr (A', Some (drop (inlen - rate - (inlen - rate) mod rate) (drop rate bs)),
                       (inlen - rate) mod rate))"
      and ab2: "absorb_bytes rate (take (inlen - rate - (inlen - rate) mod rate) (drop rate bs))
                  (keccakf1600 A1, 0) = (A', 0)"
      by blast
    have m: "(inlen - rate) mod rate = inlen mod rate" using ge by (simp add: le_mod_geq)
    have mle: "inlen mod rate \<le> inlen - rate"
      using ge m by (metis mod_less_eq_dividend)
    have d: "inlen - rate - inlen mod rate + rate = inlen - inlen mod rate"
      using ge mle by simp
    have tk: "take (inlen - inlen mod rate) bs =
              take rate bs @ take (inlen - rate - inlen mod rate) (drop rate bs)"
      using take_add [of rate "inlen - rate - inlen mod rate" bs] d by (simp add: add.commute)
    have unf: "absorb_blocks rate A (Some bs) inlen =
        absorb_blocks rate (keccakf1600 A1) (Some (drop rate bs)) (inlen - rate)"
      using ge x by (subst absorb_blocks.simps) (simp add: in_adv_def)
    have "absorb_blocks rate A (Some bs) inlen =
        Some (Inr (A', Some (drop (inlen - inlen mod rate) bs), inlen mod rate))"
      using r d by (simp add: unf m add.commute)
    moreover have "absorb_bytes rate (take (inlen - inlen mod rate) bs) (A, 0) = (A', 0)"
      using ab ab2 by (simp add: tk absorb_bytes_append m)
    ultimately show ?thesis by blast
  qed
qed

lemma absorb_tail_absorb_bytes:
  assumes "rate \<le> 200" "pos + inlen < rate" "inlen \<le> length bs"
  shows "absorb_tail A pos (Some bs) inlen = Inr (absorb_bytes rate (take inlen bs) (A, pos))"
proof (cases "inlen = 0")
  case True
  then show ?thesis by (simp add: absorb_tail_def absorb_bytes_Nil)
next
  case False
  have b: "0 + inlen \<le> length bs" "pos + 0 + inlen \<le> rate" using assms by simp_all
  from xor_in_absorb_bytes [OF b assms(1), of A] assms(2)
  obtain A' where "xor_in A pos (Some bs) 0 inlen = Inr A'"
    "absorb_bytes rate (take inlen bs) (A, pos) = (A', pos + inlen)"
    by auto
  then show ?thesis using False by (simp add: absorb_tail_def)
qed

text \<open>
  \<^verbatim>\<open>keccak1600_absorb\<close> on a context with \<open>1 \<le> rate \<le> 200\<close> and \<open>pos < rate\<close>, given
  \<open>inlen\<close> readable bytes: it returns, without a fault, the context that absorbing the
  bytes one at a time produces.
\<close>

lemma keccak1600_absorb_absorb_bytes:
  assumes "0 < ctx_rate ctx" "ctx_rate ctx \<le> 200" "ctx_pos ctx < ctx_rate ctx"
    and "inlen \<le> length bs"
  shows "keccak1600_absorb ctx (Some bs) inlen =
     Some (Inr (ctx\<lparr>ctx_a := fst (absorb_bytes (ctx_rate ctx) (take inlen bs) (ctx_a ctx, ctx_pos ctx)),
                    ctx_pos := snd (absorb_bytes (ctx_rate ctx) (take inlen bs) (ctx_a ctx, ctx_pos ctx))\<rparr>))"
proof -
  let ?r = "ctx_rate ctx"
  from absorb_head_absorb_bytes [OF assms, of "ctx_a ctx"]
  obtain t A1 pos1 where t: "t \<le> inlen"
    and hd: "absorb_head ?r (ctx_a ctx) (ctx_pos ctx) (Some bs) inlen =
               Inr (A1, pos1, Some (drop t bs), inlen - t)"
    and ab1: "absorb_bytes ?r (take t bs) (ctx_a ctx, ctx_pos ctx) = (A1, pos1)"
    and rest: "pos1 \<noteq> 0 \<longrightarrow> t = inlen"
    by blast
  have le: "inlen - t \<le> length (drop t bs)" using assms(4) by simp
  define m where "m = (inlen - t) mod ?r"
  have m_le: "m \<le> inlen - t" unfolding m_def by (rule mod_less_eq_dividend)
  have m_lt: "m < ?r" unfolding m_def using assms(1) by simp
  from absorb_blocks_absorb_bytes [OF assms(1,2) le, of A1]
  obtain A2 where
    bl: "absorb_blocks ?r A1 (Some (drop t bs)) (inlen - t) =
           Some (Inr (A2, Some (drop (inlen - t - m) (drop t bs)), m))"
    and ab2: "absorb_bytes ?r (take (inlen - t - m) (drop t bs)) (A1, 0) = (A2, 0)"
    unfolding m_def by blast
  have pm: "pos1 + m < ?r"
  proof (cases "pos1 = 0")
    case True
    then show ?thesis using m_lt by simp
  next
    case False
    with rest have "t = inlen" by simp
    then have "m = 0" using m_le by simp
    moreover have "pos1 < ?r"
      using absorb_bytes_pos [OF assms(1), of "(ctx_a ctx, ctx_pos ctx)" "take t bs"] assms(3) ab1
      by simp
    ultimately show ?thesis by simp
  qed
  have mle: "m \<le> length (drop (inlen - t - m) (drop t bs))"
    using m_le assms(4) t by simp
  have tl: "absorb_tail A2 pos1 (Some (drop (inlen - t - m) (drop t bs))) m =
      Inr (absorb_bytes ?r (take m (drop (inlen - t - m) (drop t bs))) (A2, pos1))"
    by (rule absorb_tail_absorb_bytes [OF assms(2) pm mle])
  have whole: "absorb_bytes ?r (take inlen bs) (ctx_a ctx, ctx_pos ctx) =
      absorb_bytes ?r (take m (drop (inlen - t - m) (drop t bs))) (A2, pos1)"
  proof (cases "pos1 = 0")
    case True
    have e: "t + ((inlen - t - m) + m) = inlen" using t m_le by simp
    have "take inlen bs = take t bs @ take (inlen - t - m) (drop t bs) @
            take m (drop (inlen - t - m) (drop t bs))"
      using take_add [of t "(inlen - t - m) + m" bs]
        take_add [of "inlen - t - m" m "drop t bs"]
      by (simp only: e)
    then show ?thesis using ab1 ab2 True by (simp add: absorb_bytes_append)
  next
    case False
    with rest have ti: "t = inlen" by simp
    then have "m = 0" using m_le by simp
    then show ?thesis using ab1 ab2 ti by (simp add: absorb_bytes_Nil)
  qed
  have "keccak1600_absorb ctx (Some bs) inlen =
      (case absorb_tail A2 pos1 (Some (drop (inlen - t - m) (drop t bs))) m of
         Inl e \<Rightarrow> Some (Inl e)
       | Inr (A3, pos3) \<Rightarrow> Some (Inr (ctx\<lparr>ctx_a := A3, ctx_pos := pos3\<rparr>)))"
    by (simp only: keccak1600_absorb_def hd bl sum.case prod.case option.case)
  then show ?thesis
    by (simp only: tl whole sum.case case_prod_beta)
qed

section \<open>Chunk independence of absorb\<close>

lemma keccak1600_absorb_whole:
  assumes "0 < ctx_rate ctx" "ctx_rate ctx \<le> 200" "ctx_pos ctx < ctx_rate ctx"
  shows "keccak1600_absorb ctx (Some bs) (length bs) =
     Some (Inr (ctx\<lparr>ctx_a := fst (absorb_bytes (ctx_rate ctx) bs (ctx_a ctx, ctx_pos ctx)),
                    ctx_pos := snd (absorb_bytes (ctx_rate ctx) bs (ctx_a ctx, ctx_pos ctx))\<rparr>))"
  using keccak1600_absorb_absorb_bytes [OF assms, of "length bs" bs] by simp

lemma absorb_chunks_concat:
  assumes "0 < ctx_rate ctx" "ctx_rate ctx \<le> 200" "ctx_pos ctx < ctx_rate ctx"
  shows "absorb_chunks ctx chunks =
           keccak1600_absorb ctx (Some (concat chunks)) (length (concat chunks))"
  using assms
proof (induction chunks arbitrary: ctx)
  case Nil
  then show ?case
    using keccak1600_absorb_whole [OF Nil.prems, of "[]"] by (simp add: absorb_bytes_Nil)
next
  case (Cons c cs)
  let ?r = "absorb_bytes (ctx_rate ctx) c (ctx_a ctx, ctx_pos ctx)"
  let ?c1 = "ctx\<lparr>ctx_a := fst ?r, ctx_pos := snd ?r\<rparr>"
  have a1: "keccak1600_absorb ctx (Some c) (length c) = Some (Inr ?c1)"
    by (rule keccak1600_absorb_whole [OF Cons.prems])
  have inv1: "0 < ctx_rate ?c1" "ctx_rate ?c1 \<le> 200" "ctx_pos ?c1 < ctx_rate ?c1"
    using Cons.prems absorb_bytes_pos [of "ctx_rate ctx" "(ctx_a ctx, ctx_pos ctx)" c] by simp_all
  have "absorb_chunks ctx (c # cs) = absorb_chunks ?c1 cs"
    by (simp add: a1 and_then_def)
  also have "\<dots> = keccak1600_absorb ?c1 (Some (concat cs)) (length (concat cs))"
    by (rule Cons.IH [OF inv1])
  also have "\<dots> = keccak1600_absorb ctx (Some (concat (c # cs))) (length (concat (c # cs)))"
    using keccak1600_absorb_whole [OF Cons.prems, of "c @ concat cs"]
    by (simp add: keccak1600_absorb_whole [OF inv1] absorb_bytes_append)
  finally show ?case .
qed

text \<open>
  Claim C3.  On a context with \<open>1 \<le> rate \<le> 200\<close> and \<open>pos < rate\<close>, one
  \<^verbatim>\<open>keccak1600_absorb\<close> call per chunk, in order, returns what a single call on the
  concatenation returns, whatever the chunks (empty ones included); that is a context,
  not a fault, and its position is again below the rate.  Hence absorbing \<open>A\<close> then
  \<open>B\<close> and absorbing \<open>A @ B\<close> give the same result of \<open>finalize; squeeze(n)\<close>.
\<close>

theorem absorb_chunk_independence:
  assumes "1 \<le> ctx_rate ctx" "ctx_rate ctx \<le> 200" "ctx_pos ctx < ctx_rate ctx"
  shows "absorb_chunks ctx chunks =
           keccak1600_absorb ctx (Some (concat chunks)) (length (concat chunks)) \<and>
         (\<exists>c. absorb_chunks ctx chunks = Some (Inr c) \<and> ctx_rate c = ctx_rate ctx \<and>
               ctx_pos c < ctx_rate c) \<and>
         and_then (absorb_chunks ctx [A, B]) (finalize_squeeze n) =
           and_then (keccak1600_absorb ctx (Some (A @ B)) (length (A @ B))) (finalize_squeeze n)"
proof -
  have r: "0 < ctx_rate ctx" using assms by simp
  note cc = absorb_chunks_concat [OF r assms(2,3)]
  let ?r = "absorb_bytes (ctx_rate ctx) (concat chunks) (ctx_a ctx, ctx_pos ctx)"
  have "snd ?r < ctx_rate ctx"
    using absorb_bytes_pos [OF r, of "(ctx_a ctx, ctx_pos ctx)" "concat chunks"] assms(3) by simp
  then have "\<exists>c. absorb_chunks ctx chunks = Some (Inr c) \<and> ctx_rate c = ctx_rate ctx \<and>
               ctx_pos c < ctx_rate c"
    by (simp only: cc keccak1600_absorb_whole [OF r assms(2,3)]) simp
  moreover have "absorb_chunks ctx [A, B] = keccak1600_absorb ctx (Some (A @ B)) (length (A @ B))"
    using cc [of "[A, B]"] by (simp del: absorb_chunks.simps)
  ultimately show ?thesis using cc by simp
qed

theorem absorb_chunk_independence_witness:
  "1 \<le> ctx_rate (keccak1600_init 2 6) \<and> ctx_rate (keccak1600_init 2 6) \<le> 200 \<and>
   ctx_pos (keccak1600_init 2 6) < ctx_rate (keccak1600_init 2 6) \<and>
   absorb_chunks (keccak1600_init 2 6) [[1], [], [2, 3], [4]] =
     keccak1600_absorb (keccak1600_init 2 6) (Some (concat [[1], [], [2, 3], [4]]))
       (length (concat [[1], [], [2, 3], [4 :: u8]])) \<and>
   (\<exists>c. absorb_chunks (keccak1600_init 2 6) [[1], [], [2, 3], [4]] = Some (Inr c) \<and>
        ctx_rate c = ctx_rate (keccak1600_init 2 6) \<and> ctx_pos c < ctx_rate c) \<and>
   and_then (absorb_chunks (keccak1600_init 2 6) [[1, 2], [3]]) (finalize_squeeze 5) =
     and_then (keccak1600_absorb (keccak1600_init 2 6) (Some ([1, 2] @ [3])) (length ([1, 2] @ [3 :: u8])))
       (finalize_squeeze 5)"
proof -
  have h: "1 \<le> ctx_rate (keccak1600_init 2 6)" "ctx_rate (keccak1600_init 2 6) \<le> 200"
    "ctx_pos (keccak1600_init 2 6) < ctx_rate (keccak1600_init 2 6)"
    by (simp_all add: keccak1600_init_def)
  from h absorb_chunk_independence [OF h, of "[[1], [], [2, 3], [4]]" "[1, 2]" "[3]" 5]
  show ?thesis by blast
qed

section \<open>The capacity bytes\<close>







section \<open>Bit lists and lanes\<close>

lemma bxor_eq: "bxor a b \<longleftrightarrow> a \<noteq> b"
  by (cases a; cases b) simp_all

lemma bchi_eq: "bchi a b c \<longleftrightarrow> a \<noteq> (\<not> b \<and> c)"
  by (cases a; cases b; cases c) simp_all

lemma length_xorl [simp]: "length (xorl as bs) = min (length as) (length bs)"
  by (induction as bs rule: xorl.induct) simp_all

lemma nth_xorl: "n < length as \<Longrightarrow> n < length bs \<Longrightarrow> xorl as bs ! n = bxor (as ! n) (bs ! n)"
proof (induction as bs arbitrary: n rule: xorl.induct)
  case (1 a as b bs)
  then show ?case by (cases n) simp_all
qed simp_all

lemma length_chil [simp]:
  "length (chil as bs cs) = min (length as) (min (length bs) (length cs))"
  by (induction as bs cs rule: chil.induct) simp_all

lemma nth_chil:
  "n < length as \<Longrightarrow> n < length bs \<Longrightarrow> n < length cs \<Longrightarrow>
   chil as bs cs ! n = bchi (as ! n) (bs ! n) (cs ! n)"
proof (induction as bs cs arbitrary: n rule: chil.induct)
  case (1 a as b bs c cs)
  then show ?case by (cases n) simp_all
qed simp_all

lemma length_rot1 [simp]: "length bs = 64 \<Longrightarrow> length (rot1 bs) = 64"
  by (simp add: rot1_def)

lemma nth_rot1:
  assumes "length bs = 64" "m < 64"
  shows "rot1 bs ! ((m + 1) mod 64) = bs ! m"
proof (cases "m = 63")
  case True
  have "bs \<noteq> []" using assms by auto
  then show ?thesis using assms True by (simp add: rot1_def last_conv_nth)
next
  case False
  then have "(m + 1) mod 64 = Suc m" using assms by simp
  then show ?thesis using assms False by (simp add: rot1_def nth_butlast)
qed

lemma length_rotb [simp]: "length bs = 64 \<Longrightarrow> length (rotb k bs) = 64"
  by (induction k arbitrary: bs) auto

lemma nth_rotb:
  "length bs = 64 \<Longrightarrow> m < 64 \<Longrightarrow> rotb k bs ! ((m + k) mod 64) = bs ! m"
proof (induction k arbitrary: bs m)
  case 0
  then show ?case by simp
next
  case (Suc k)
  have l: "length (rot1 bs) = 64" using Suc.prems by auto
  have m: "(m + 1) mod 64 < 64" by simp
  have "((m + 1) mod 64 + k) mod 64 = (m + Suc k) mod 64"
    by (simp add: mod_add_left_eq)
  with Suc.IH [OF l m] nth_rot1 [OF Suc.prems] show ?case by simp
qed

lemma bit_b2w: "length bs = 64 \<Longrightarrow> bit (b2w bs) n \<longleftrightarrow> n < 64 \<and> bs ! n"
  by (simp add: b2w_def bit_horner_sum_bit_word_iff)

lemma b2w_xorl:
  assumes "length as = 64" "length bs = 64"
  shows "b2w as XOR b2w bs = b2w (xorl as bs)"
  using assms by (intro bit_eqI) (auto simp: bit_xor_iff bit_b2w nth_xorl bxor_eq)

lemma b2w_chil:
  assumes "length as = 64" "length bs = 64" "length cs = 64"
  shows "b2w as XOR (NOT (b2w bs) AND b2w cs) = b2w (chil as bs cs)"
  using assms
  by (intro bit_eqI) (auto simp: bit_xor_iff bit_and_iff bit_not_iff bit_b2w nth_chil bchi_eq)

lemma b2w_rotb:
  assumes "length bs = 64"
  shows "word_rotl k (b2w bs) = b2w (rotb k bs)"
proof (rule bit_eqI)
  fix n
  assume "possible_bit TYPE(u64) n"
  then have n: "n < 64" by simp
  define m where "m = (n + (64 - k mod 64)) mod 64"
  have m: "m < 64" by (simp add: m_def)
  have "(m + k) mod 64 = (n + (64 - k mod 64) + k) mod 64"
    by (simp add: m_def mod_add_left_eq)
  also have "n + (64 - k mod 64) + k = n + 64 * (1 + k div 64)"
  proof -
    define r q where "r = k mod 64" and "q = k div 64"
    have "k = 64 * q + r" by (simp add: r_def q_def)
    moreover have "r < 64" by (simp add: r_def)
    ultimately show ?thesis unfolding r_def [symmetric] q_def [symmetric] by simp
  qed
  also have "\<dots> mod 64 = n mod 64" by (rule mod_mult_self2)
  also have "\<dots> = n" using n by simp
  finally have mk: "(m + k) mod 64 = n" .
  have "bit (word_rotl k (b2w bs)) n \<longleftrightarrow> bs ! m"
    using n m assms by (simp add: bit_word_rotl_iff bit_b2w m_def)
  moreover have "bit (b2w (rotb k bs)) n \<longleftrightarrow> bs ! m"
    using nth_rotb [OF assms m, of k] n assms by (simp add: bit_b2w mk)
  ultimately show "bit (word_rotl k (b2w bs)) n = bit (b2w (rotb k bs)) n" by simp
qed

lemma keccak_rotl64_word_rotl:
  assumes "0 < k" "k < 64"
  shows "keccak_rotl64 x (of_nat k) = word_rotl k x"
proof -
  have m: "(63 :: 32 word) = mask 6" by (simp add: mask_eq_exp_minus_1)
  have low: "unat (of_nat j AND (63 :: 32 word)) = j" if "j < 64" for j
    using that
    by (simp add: m flip: take_bit_eq_mask)
      (simp add: unsigned_take_bit_eq take_bit_nat_eq_self unat_of_nat)
  have a: "unat (of_nat k AND (63 :: 32 word)) = k" using assms by (intro low)
  have e: "(64 :: 32 word) - of_nat k = of_nat (64 - k)" using assms by simp
  have b: "unat (((64 :: 32 word) - of_nat k) AND 63) = 64 - k"
    unfolding e using assms by (intro low) simp
  have r: "push_bit k x OR drop_bit (64 - k) x = word_rotl k x"
  proof (rule bit_eqI)
    fix n
    assume "possible_bit TYPE(u64) n"
    then have n: "n < 64" by simp
    define j where "j = (n + (64 - k)) mod 64"
    have km: "k mod 64 = k" using assms by simp
    have rot: "bit (word_rotl k x) n \<longleftrightarrow> bit x j"
      unfolding j_def using n km by (simp add: bit_word_rotl_iff)
    have psh: "bit (push_bit k x) n \<longleftrightarrow> k \<le> n \<and> bit x (n - k)"
      using n by (simp add: bit_push_bit_iff)
    have drp: "bit (drop_bit (64 - k) x) n \<longleftrightarrow> bit x (64 - k + n)"
      by (simp add: bit_drop_bit_eq)
    show "bit (push_bit k x OR drop_bit (64 - k) x) n = bit (word_rotl k x) n"
    proof (cases "k \<le> n")
      case True
      have "n + (64 - k) = (n - k) + 64" using True assms by arith
      then have "j = (n - k) mod 64" by (simp only: j_def mod_add_self2)
      then have "j = n - k" using n by simp
      moreover have "\<not> bit x (64 - k + n)"
      proof
        assume "bit x (64 - k + n)"
        then have "64 - k + n < 64" using bit_imp_le_length [of x "64 - k + n"] by simp
        then show False using True assms by arith
      qed
      ultimately show ?thesis using True by (simp only: bit_or_iff rot psh drp simp_thms)
    next
      case False
      then have "n + (64 - k) < 64" using assms by arith
      then have "j = 64 - k + n" by (simp only: j_def mod_less add.commute)
      then show ?thesis using False by (simp only: bit_or_iff rot psh drp simp_thms)
    qed
  qed
  show ?thesis unfolding keccak_rotl64_def a b by (rule r)
qed

section \<open>The stages on explicit lists\<close>

lemma th_cols_lit:
  "th_cols X [a0, a1, a2, a3, a4, a5, a6, a7, a8, a9, a10, a11, a12, a13, a14, a15, a16, a17, a18, a19, a20, a21, a22, a23, a24] =
    [X a0 (X a5 (X a10 (X a15 a20))),
     X a1 (X a6 (X a11 (X a16 a21))),
     X a2 (X a7 (X a12 (X a17 a22))),
     X a3 (X a8 (X a13 (X a18 a23))),
     X a4 (X a9 (X a14 (X a19 a24)))]"
  by (simp add: th_cols_def)

lemma th_dls_lit:
  "th_dls X R [c0, c1, c2, c3, c4] =
    [X c4 (R 1 c1), X c0 (R 1 c2), X c1 (R 1 c3), X c2 (R 1 c4), X c3 (R 1 c0)]"
  by (simp add: th_dls_def)

lemma th_app_lit:
  "th_app X [d0, d1, d2, d3, d4] [a0, a1, a2, a3, a4, a5, a6, a7, a8, a9, a10, a11, a12, a13, a14, a15, a16, a17, a18, a19, a20, a21, a22, a23, a24] =
    [X a0 d0, X a1 d1, X a2 d2, X a3 d3, X a4 d4,
      X a5 d0, X a6 d1, X a7 d2, X a8 d3, X a9 d4,
      X a10 d0, X a11 d1, X a12 d2, X a13 d3, X a14 d4,
      X a15 d0, X a16 d1, X a17 d2, X a18 d3, X a19 d4,
      X a20 d0, X a21 d1, X a22 d2, X a23 d3, X a24 d4]"
  by (simp add: th_app_def)

lemma rhopi_code_g_lit:
  "rhopi_code_g R [a0, a1, a2, a3, a4, a5, a6, a7, a8, a9, a10, a11, a12, a13, a14, a15, a16, a17, a18, a19, a20, a21, a22, a23, a24] =
    [a0, R 1 a5, R 62 a10, R 28 a15, R 27 a20,
      R 36 a1, R 44 a6, R 6 a11, R 55 a16, R 20 a21,
      R 3 a2, R 10 a7, R 43 a12, R 25 a17, R 39 a22,
      R 41 a3, R 45 a8, R 15 a13, R 21 a18, R 8 a23,
      R 18 a4, R 2 a9, R 61 a14, R 56 a19, R 14 a24]"
  by (simp add: rhopi_code_g_def)

lemma rhopi_std_g_lit:
  "rhopi_std_g R [a0, a1, a2, a3, a4, a5, a6, a7, a8, a9, a10, a11, a12, a13, a14, a15, a16, a17, a18, a19, a20, a21, a22, a23, a24] =
    [a0, R 44 a6, R 43 a12, R 21 a18, R 14 a24,
      R 28 a3, R 20 a9, R 3 a10, R 45 a16, R 61 a22,
      R 1 a1, R 6 a7, R 25 a13, R 8 a19, R 18 a20,
      R 27 a4, R 36 a5, R 10 a11, R 15 a17, R 56 a23,
      R 62 a2, R 55 a8, R 39 a14, R 41 a15, R 2 a21]"
  by (simp add: rhopi_std_g_def)

lemma chi_g_lit:
  "chi_g C [a0, a1, a2, a3, a4, a5, a6, a7, a8, a9, a10, a11, a12, a13, a14, a15, a16, a17, a18, a19, a20, a21, a22, a23, a24] =
    [C a0 a1 a2, C a1 a2 a3, C a2 a3 a4, C a3 a4 a0, C a4 a0 a1,
      C a5 a6 a7, C a6 a7 a8, C a7 a8 a9, C a8 a9 a5, C a9 a5 a6,
      C a10 a11 a12, C a11 a12 a13, C a12 a13 a14, C a13 a14 a10, C a14 a10 a11,
      C a15 a16 a17, C a16 a17 a18, C a17 a18 a19, C a18 a19 a15, C a19 a15 a16,
      C a20 a21 a22, C a21 a22 a23, C a22 a23 a24, C a23 a24 a20, C a24 a20 a21]"
  by (simp add: chi_g_def)

lemma iota_g_lit:
  "iota_g X rc [a0, a1, a2, a3, a4, a5, a6, a7, a8, a9, a10, a11, a12, a13, a14, a15, a16, a17, a18, a19, a20, a21, a22, a23, a24] =
    [X a0 rc, a1, a2, a3, a4,
      a5, a6, a7, a8, a9,
      a10, a11, a12, a13, a14,
      a15, a16, a17, a18, a19,
      a20, a21, a22, a23, a24]"
  by (simp add: iota_g_def)

section \<open>The round macro, stage by stage\<close>

lemma keccak_rotl64_numeral:
  "numeral v < (64 :: nat) \<Longrightarrow> keccak_rotl64 x (numeral v) = word_rotl (numeral v) x"
  using keccak_rotl64_word_rotl [of "numeral v" x] by simp

lemma keccak_rotl64_1: "keccak_rotl64 x 1 = word_rotl 1 x"
  using keccak_rotl64_word_rotl [of 1 x] by simp

lemma KECCAK_ROUND_stages:
  "KECCAK_ROUND rc r =
     iota_g (XOR) rc (chi_g chiw (rhopi_code_g word_rotl (theta_g (XOR) word_rotl r)))"
  unfolding KECCAK_ROUND_def Let_def theta_g_def th_cols_def th_dls_def
  apply (simp only: keccak_rotl64_numeral keccak_rotl64_1)
  apply (simp add: iota_g_def chi_g_def rhopi_code_g_def th_app_def chiw_def)
  done

section \<open>The round on bit-sliced lanes\<close>

lemma wfb_length: "wfb s \<Longrightarrow> n < 25 \<Longrightarrow> length (s ! n) = 64"
  by (simp add: wfb_def list_all_length)

lemma wfb_nth_map: "wfb s \<Longrightarrow> n < 25 \<Longrightarrow> map b2w s ! n = b2w (s ! n)"
  by (simp add: wfb_def)

lemma wfb_map_eq:
  assumes "wfb s" "length r = 25" "\<And>n. n < 25 \<Longrightarrow> r ! n = b2w (s ! n)"
  shows "r = map b2w s"
  using assms by (intro nth_equalityI) (simp_all add: wfb_def)

lemma lanes64_nth: "list_all (\<lambda>l. length l = 64) c \<Longrightarrow> n < length c \<Longrightarrow> length (c ! n) = 64"
  by (simp add: list_all_length)

lemma th_cols_bits:
  assumes "wfb s"
  shows "th_cols (XOR) (map b2w s) = map b2w (th_cols xorl s)"
    and "length (th_cols xorl s) = 5" and "list_all (\<lambda>l. length l = 64) (th_cols xorl s)"
  using assms
  by (simp_all add: th_cols_def wfb_nth_map wfb_length b2w_xorl)

lemma th_dls_bits:
  assumes "length c = 5" "list_all (\<lambda>l. length l = 64) c"
  shows "th_dls (XOR) word_rotl (map b2w c) = map b2w (th_dls xorl rotb c)"
    and "length (th_dls xorl rotb c) = 5" and "list_all (\<lambda>l. length l = 64) (th_dls xorl rotb c)"
  using assms
  by (simp_all add: th_dls_def lanes64_nth b2w_xorl b2w_rotb del: rotb.simps One_nat_def)

lemma th_app_bits:
  assumes "wfb s" "length d = 5" "list_all (\<lambda>l. length l = 64) d"
  shows "th_app (XOR) (map b2w d) (map b2w s) = map b2w (th_app xorl d s)"
    and "wfb (th_app xorl d s)"
  using assms
  by (simp_all add: th_app_def lanes64_nth wfb_nth_map wfb_length b2w_xorl wfb_def [of "_ # _"])

lemma theta_g_bits:
  assumes "wfb s"
  shows "theta_g (XOR) word_rotl (map b2w s) = map b2w (theta_g xorl rotb s)"
    and "wfb (theta_g xorl rotb s)"
  using th_cols_bits [OF assms] th_dls_bits [of "th_cols xorl s"]
    th_app_bits [OF assms, of "th_dls xorl rotb (th_cols xorl s)"]
  by (simp_all add: theta_g_def)

lemma rhopi_code_g_bits:
  assumes "wfb s"
  shows "rhopi_code_g word_rotl (map b2w s) = map b2w (rhopi_code_g rotb s)"
    and "wfb (rhopi_code_g rotb s)"
  using assms
  by (simp_all add: rhopi_code_g_def wfb_nth_map wfb_length b2w_rotb wfb_def [of "_ # _"]
      del: rotb.simps One_nat_def)

lemma rhopi_std_g_bits:
  assumes "wfb s"
  shows "rhopi_std_g word_rotl (map b2w s) = map b2w (rhopi_std_g rotb s)"
    and "wfb (rhopi_std_g rotb s)"
  using assms
  by (simp_all add: rhopi_std_g_def wfb_nth_map wfb_length b2w_rotb wfb_def [of "_ # _"]
      del: rotb.simps One_nat_def)

lemma chi_g_bits:
  assumes "wfb s"
  shows "chi_g chiw (map b2w s) = map b2w (chi_g chil s)"
    and "wfb (chi_g chil s)"
  using assms
  by (simp_all add: chi_g_def chiw_def wfb_nth_map wfb_length b2w_chil wfb_def [of "_ # _"])

lemma iota_g_bits:
  assumes "wfb s" "length rc = 64"
  shows "iota_g (XOR) (b2w rc) (map b2w s) = map b2w (iota_g xorl rc s)"
    and "wfb (iota_g xorl rc s)"
  using assms
  by (simp_all add: iota_g_def wfb_nth_map wfb_length b2w_xorl wfb_def [of "_ # _"])

lemma round_code_bits:
  assumes "wfb s" "length rc = 64"
  shows "KECCAK_ROUND (b2w rc) (map b2w s) = map b2w (round_code_b rc s)"
    and "wfb (round_code_b rc s)"
proof -
  note t = theta_g_bits [OF assms(1)]
  note r = rhopi_code_g_bits [OF t(2)]
  note c = chi_g_bits [OF r(2)]
  note i = iota_g_bits [OF c(2) assms(2)]
  show "KECCAK_ROUND (b2w rc) (map b2w s) = map b2w (round_code_b rc s)"
    by (simp only: KECCAK_ROUND_stages round_code_b_def t(1) r(1) c(1) i(1))
  show "wfb (round_code_b rc s)"
    by (simp only: round_code_b_def i(2))
qed

section \<open>The permutation on bit-sliced lanes\<close>

lemma rc_bits7_lit:
  "rc_bits7 [r0, r1, r2, r3, r4, r5, r6] =
    [r0, r1, False, r2, False, False, False, r3,
     False, False, False, False, False, False, False, r4,
     False, False, False, False, False, False, False, False,
     False, False, False, False, False, False, False, r5,
     False, False, False, False, False, False, False, False,
     False, False, False, False, False, False, False, False,
     False, False, False, False, False, False, False, False,
     False, False, False, False, False, False, False, r6]"
  by (simp add: rc_bits7_def)

lemma length_rc_bits7: "length (rc_bits7 r) = 64"
  by (simp add: rc_bits7_def)

lemma b2w_Cons: "b2w (b # bs) = of_bool b + 2 * b2w bs"
  by (simp add: b2w_def)

lemma b2w_Nil: "b2w [] = 0"
  by (simp add: b2w_def)

lemma KECCAK_RC_bits: "KECCAK_RC = map (\<lambda>r. b2w (rc_bits7 r)) RC7"
  by (simp add: KECCAK_RC_def RC7_def rc_bits7_lit b2w_Cons b2w_Nil)

lemma list25:
  assumes "length s = 25"
  shows "[s ! 0, s ! 1, s ! 2, s ! 3, s ! 4, s ! 5, s ! 6, s ! 7, s ! 8, s ! 9, s ! 10, s ! 11,
          s ! 12, s ! 13, s ! 14, s ! 15, s ! 16, s ! 17, s ! 18, s ! 19, s ! 20, s ! 21, s ! 22,
          s ! 23, s ! 24] = s"
  using assms by (intro nth_equalityI) (auto simp: nth_Cons' less_Suc_eq numeral_eq_Suc)

lemma keccakf1600_fold:
  assumes "length s = 25"
  shows "keccakf1600 s = fold KECCAK_ROUND KECCAK_RC s"
  unfolding keccakf1600_def Let_def list25 [OF assms]
  by (simp add: KECCAK_RC_def)

lemma fold_round_bits:
  assumes "wfb s"
  shows "fold KECCAK_ROUND (map (\<lambda>r. b2w (rc_bits7 r)) rs) (map b2w s) =
           map b2w (fold (\<lambda>r. round_code_b (rc_bits7 r)) rs s) \<and>
         wfb (fold (\<lambda>r. round_code_b (rc_bits7 r)) rs s)"
  using assms
proof (induction rs arbitrary: s)
  case Nil
  then show ?case by simp
next
  case (Cons r rs)
  note rb = round_code_bits [OF Cons.prems length_rc_bits7, of r]
  from Cons.IH [OF rb(2)] show ?case by (simp add: rb(1))
qed

lemma keccakf1600_bits:
  assumes "wfb s"
  shows "keccakf1600 (map b2w s) = map b2w (perm_code_b s)"
proof -
  have "length (map b2w s) = 25" using assms by (simp add: wfb_def)
  then show ?thesis
    using fold_round_bits [OF assms, of RC7]
    by (simp add: keccakf1600_fold KECCAK_RC_bits perm_code_b_def)
qed

lemma rot1_lit:
  "rot1 [b0, b1, b2, b3, b4, b5, b6, b7,
          b8, b9, b10, b11, b12, b13, b14, b15,
          b16, b17, b18, b19, b20, b21, b22, b23,
          b24, b25, b26, b27, b28, b29, b30, b31,
          b32, b33, b34, b35, b36, b37, b38, b39,
          b40, b41, b42, b43, b44, b45, b46, b47,
          b48, b49, b50, b51, b52, b53, b54, b55,
          b56, b57, b58, b59, b60, b61, b62, b63] =
    [b63, b0, b1, b2, b3, b4, b5, b6,
     b7, b8, b9, b10, b11, b12, b13, b14,
     b15, b16, b17, b18, b19, b20, b21, b22,
     b23, b24, b25, b26, b27, b28, b29, b30,
     b31, b32, b33, b34, b35, b36, b37, b38,
     b39, b40, b41, b42, b43, b44, b45, b46,
     b47, b48, b49, b50, b51, b52, b53, b54,
     b55, b56, b57, b58, b59, b60, b61, b62]"
  by (simp add: rot1_def)

lemma rotb_numeral: "rotb (numeral v) bs = rotb (pred_numeral v) (rot1 bs)"
  by (simp add: numeral_eq_Suc)

lemma rotb_1: "rotb 1 bs = rot1 bs"
  by simp

lemmas bits_eval = theta_g_def th_cols_lit th_dls_lit th_app_lit
  chi_g_lit iota_g_lit xorl.simps chil.simps bxor.simps bchi.simps rotb_numeral rotb_1 rotb.simps(1)
  pred_numeral_simps BitM.simps numeral_One rot1_lit rc_bits7_lit fold_simps

section \<open>The permutation on three states\<close>

lemmas perm_eval = perm_code_b_def RC7_def round_code_b_def rhopi_code_g_lit bits_eval
  z64_def list.sel

lemma b2w_z64: "b2w z64 = 0"
  by (simp add: z64_def b2w_Cons b2w_Nil)

lemma wfb_lit:
  "wfb [l0, l1, l2, l3, l4, l5, l6, l7, l8, l9, l10, l11, l12, l13, l14, l15, l16, l17, l18,
        l19, l20, l21, l22, l23, l24] \<longleftrightarrow>
   list_all (\<lambda>l. length l = 64)
     [l0, l1, l2, l3, l4, l5, l6, l7, l8, l9, l10, l11, l12, l13, l14, l15, l16, l17, l18,
      l19, l20, l21, l22, l23, l24]"
  by (simp add: wfb_def)

lemma length_z64: "length z64 = 64"
  by (simp add: z64_def)

lemma keccakf1600_keccak_empty:
  "keccakf1600 (st_xor (st_xor keccak_state_zero 0 0x01) 135 0x80) =
     [0x2fc767a5b2114c9e, 0x6c636fe1dea957b4, 0x7de02e37a0161f5b,
      0xa03137d529e7cb8f, 0x41852c6b8a85fa17, 0x8dfec084c5d0e162,
      0xdd1bf22eca5155fb, 0x47ce70fa3cc515de, 0x357f31b0cf67a2eb,
      0xf2787d5efe9d5ffb, 0x2971f15867fc4f57, 0x507a2ec33b2bc49a,
      0x6500badf92180726, 0x87a9f22e8149fbec, 0x74aeb59cd9c655ac,
      0x949d1267cf92cfd3, 0x1eccb1d4ae5227b2, 0x704c498254d36e6a,
      0x47484d8a40487c69, 0x3ce0ac74b0d65176, 0x882f76afba91e635,
      0x30aa9fd6548d3b00, 0xd788c772d30549a5, 0x9678d230035b4126,
      0xbad8a18f9de368a7]"
proof -
  let ?s = "[True # tl z64, z64, z64, z64, z64, z64, z64, z64, z64, z64, z64, z64, z64, z64, z64, z64, rotb 63 (True # tl z64), z64, z64, z64, z64, z64, z64, z64, z64]"
  have w: "wfb ?s" by (simp add: wfb_lit length_z64)
  have l: "st_xor (st_xor keccak_state_zero 0 0x01) 135 0x80 =
     [0x0000000000000001, 0x0000000000000000, 0x0000000000000000,
      0x0000000000000000, 0x0000000000000000, 0x0000000000000000,
      0x0000000000000000, 0x0000000000000000, 0x0000000000000000,
      0x0000000000000000, 0x0000000000000000, 0x0000000000000000,
      0x0000000000000000, 0x0000000000000000, 0x0000000000000000,
      0x0000000000000000, 0x8000000000000000, 0x0000000000000000,
      0x0000000000000000, 0x0000000000000000, 0x0000000000000000,
      0x0000000000000000, 0x0000000000000000, 0x0000000000000000,
      0x0000000000000000]"
    by (simp add: st_xor_def keccak_state_zero_def)
  have r: "map b2w ?s =
     [0x0000000000000001, 0x0000000000000000, 0x0000000000000000,
      0x0000000000000000, 0x0000000000000000, 0x0000000000000000,
      0x0000000000000000, 0x0000000000000000, 0x0000000000000000,
      0x0000000000000000, 0x0000000000000000, 0x0000000000000000,
      0x0000000000000000, 0x0000000000000000, 0x0000000000000000,
      0x0000000000000000, 0x8000000000000000, 0x0000000000000000,
      0x0000000000000000, 0x0000000000000000, 0x0000000000000000,
      0x0000000000000000, 0x0000000000000000, 0x0000000000000000,
      0x0000000000000000]"
    apply (simp only: perm_eval)
    apply (simp only: list.map b2w_Cons b2w_Nil of_bool_eq)
    apply simp
    done
  have "map b2w (perm_code_b ?s) =
     [0x2fc767a5b2114c9e, 0x6c636fe1dea957b4, 0x7de02e37a0161f5b,
      0xa03137d529e7cb8f, 0x41852c6b8a85fa17, 0x8dfec084c5d0e162,
      0xdd1bf22eca5155fb, 0x47ce70fa3cc515de, 0x357f31b0cf67a2eb,
      0xf2787d5efe9d5ffb, 0x2971f15867fc4f57, 0x507a2ec33b2bc49a,
      0x6500badf92180726, 0x87a9f22e8149fbec, 0x74aeb59cd9c655ac,
      0x949d1267cf92cfd3, 0x1eccb1d4ae5227b2, 0x704c498254d36e6a,
      0x47484d8a40487c69, 0x3ce0ac74b0d65176, 0x882f76afba91e635,
      0x30aa9fd6548d3b00, 0xd788c772d30549a5, 0x9678d230035b4126,
      0xbad8a18f9de368a7]"
    apply (simp only: perm_eval)
    apply (simp only: list.map b2w_Cons b2w_Nil of_bool_eq)
    apply simp
    done
  then show ?thesis
    by (simp only: l r [symmetric] keccakf1600_bits [OF w])
qed

lemma keccakf1600_sha3_empty:
  "keccakf1600 (st_xor (st_xor keccak_state_zero 0 0x06) 135 0x80) =
     [0x282361a217f9444d, 0xe5b2bca2826372bf, 0x3dc68fe97438abef,
      0xdcf03f33746b991e, 0xc884b2ed8492bbdc, 0xc82787a8af0f64d5,
      0xfeead09184dffe8f, 0x706bc8fece41f7f7, 0x7f462b98aa3f25c5,
      0xa4c1d411fe42d0b6, 0xa526610dfe62c1a9, 0x0ac38b10dbb4cd87,
      0x3842d0c53fc786ec, 0x46ffd0ebcf4a13ad, 0x8c2174fb039a951c,
      0x56ae3c35975cea34, 0x91cd1a869da5b536, 0xe9abb93992928c5b,
      0x3651f66803314853, 0xdd0a02ab36489d07, 0x673f571df348623b,
      0x3d93bd1aa29feed1, 0xa4fe809cdbd07b61, 0x30d7affa41dde472,
      0x0b9dec453641fa5c]"
proof -
  let ?s = "[False # True # True # tl (tl (tl z64)), z64, z64, z64, z64, z64, z64, z64, z64, z64, z64, z64, z64, z64, z64, z64, rotb 63 (True # tl z64), z64, z64, z64, z64, z64, z64, z64, z64]"
  have w: "wfb ?s" by (simp add: wfb_lit length_z64)
  have l: "st_xor (st_xor keccak_state_zero 0 0x06) 135 0x80 =
     [0x0000000000000006, 0x0000000000000000, 0x0000000000000000,
      0x0000000000000000, 0x0000000000000000, 0x0000000000000000,
      0x0000000000000000, 0x0000000000000000, 0x0000000000000000,
      0x0000000000000000, 0x0000000000000000, 0x0000000000000000,
      0x0000000000000000, 0x0000000000000000, 0x0000000000000000,
      0x0000000000000000, 0x8000000000000000, 0x0000000000000000,
      0x0000000000000000, 0x0000000000000000, 0x0000000000000000,
      0x0000000000000000, 0x0000000000000000, 0x0000000000000000,
      0x0000000000000000]"
    by (simp add: st_xor_def keccak_state_zero_def)
  have r: "map b2w ?s =
     [0x0000000000000006, 0x0000000000000000, 0x0000000000000000,
      0x0000000000000000, 0x0000000000000000, 0x0000000000000000,
      0x0000000000000000, 0x0000000000000000, 0x0000000000000000,
      0x0000000000000000, 0x0000000000000000, 0x0000000000000000,
      0x0000000000000000, 0x0000000000000000, 0x0000000000000000,
      0x0000000000000000, 0x8000000000000000, 0x0000000000000000,
      0x0000000000000000, 0x0000000000000000, 0x0000000000000000,
      0x0000000000000000, 0x0000000000000000, 0x0000000000000000,
      0x0000000000000000]"
    apply (simp only: perm_eval)
    apply (simp only: list.map b2w_Cons b2w_Nil of_bool_eq)
    apply simp
    done
  have "map b2w (perm_code_b ?s) =
     [0x282361a217f9444d, 0xe5b2bca2826372bf, 0x3dc68fe97438abef,
      0xdcf03f33746b991e, 0xc884b2ed8492bbdc, 0xc82787a8af0f64d5,
      0xfeead09184dffe8f, 0x706bc8fece41f7f7, 0x7f462b98aa3f25c5,
      0xa4c1d411fe42d0b6, 0xa526610dfe62c1a9, 0x0ac38b10dbb4cd87,
      0x3842d0c53fc786ec, 0x46ffd0ebcf4a13ad, 0x8c2174fb039a951c,
      0x56ae3c35975cea34, 0x91cd1a869da5b536, 0xe9abb93992928c5b,
      0x3651f66803314853, 0xdd0a02ab36489d07, 0x673f571df348623b,
      0x3d93bd1aa29feed1, 0xa4fe809cdbd07b61, 0x30d7affa41dde472,
      0x0b9dec453641fa5c]"
    apply (simp only: perm_eval)
    apply (simp only: list.map b2w_Cons b2w_Nil of_bool_eq)
    apply simp
    done
  then show ?thesis
    by (simp only: l r [symmetric] keccakf1600_bits [OF w])
qed

lemma hex_digit_simps:
  "hex_digit 0 = CHR ''0''" "hex_digit 1 = CHR ''1''" "hex_digit 2 = CHR ''2''"
  "hex_digit 3 = CHR ''3''" "hex_digit 4 = CHR ''4''" "hex_digit 5 = CHR ''5''"
  "hex_digit 6 = CHR ''6''" "hex_digit 7 = CHR ''7''" "hex_digit 8 = CHR ''8''"
  "hex_digit 9 = CHR ''9''" "hex_digit 10 = CHR ''a''" "hex_digit 11 = CHR ''b''"
  "hex_digit 12 = CHR ''c''" "hex_digit 13 = CHR ''d''" "hex_digit 14 = CHR ''e''"
  "hex_digit 15 = CHR ''f''" "hex_digit (Suc 0) = CHR ''1''"
  by code_simp+

lemma upt_0_32:
  "[0..<32] = [0, 1, 2, 3, 4, 5, 6, 7, 8, 9, 10, 11, 12, 13, 14, 15, 16, 17, 18, 19, 20, 21,
               22, 23, 24, 25, 26, 27, 28, 29, 30, 31 :: nat]"
  by code_simp

lemma keccak_256_empty_bytes:
  "keccak_256 (Some []) 0 = Some (Inr
     [0x9e, 0x4c, 0x11, 0xb2, 0xa5, 0x67, 0xc7, 0x2f,
      0xb4, 0x57, 0xa9, 0xde, 0xe1, 0x6f, 0x63, 0x6c,
      0x5b, 0x1f, 0x16, 0xa0, 0x37, 0x2e, 0xe0, 0x7d,
      0x8f, 0xcb, 0xe7, 0x29, 0xd5, 0x37, 0x31, 0xa0])"
  by (simp add: keccak_256_def KECCAK_RATE_SHA3_256_def KECCAK_DELIM_KECCAK_def
      sha3_hash_generic_empty keccakf1600_keccak_empty st_get_def upt_0_32)

lemma sha3_256_empty_bytes:
  "sha3_256 (Some []) 0 = Some (Inr
     [0x4d, 0x44, 0xf9, 0x17, 0xa2, 0x61, 0x23, 0x28,
      0xbf, 0x72, 0x63, 0x82, 0xa2, 0xbc, 0xb2, 0xe5,
      0xef, 0xab, 0x38, 0x74, 0xe9, 0x8f, 0xc6, 0x3d,
      0x1e, 0x99, 0x6b, 0x74, 0x33, 0x3f, 0xf0, 0xdc])"
  by (simp add: sha3_256_def KECCAK_RATE_SHA3_256_def KECCAK_DELIM_SHA3_def
      sha3_hash_generic_empty keccakf1600_sha3_empty st_get_def upt_0_32)

text \<open>
  Claim C1, evaluated.  For the empty input \<^verbatim>\<open>keccak_256\<close> writes the 32 bytes
  \<open>9e4c11b2\<dots>\<close> and \<^verbatim>\<open>sha3_256\<close> the 32 bytes \<open>4d44f917\<dots>\<close>.  Neither begins with
  the 63 hexadecimal digits the specification quotes for it (\<open>c5d24601\<dots>\<close> and
  \<open>a7ffc6f8\<dots>\<close>, the digests of Keccak-256 and SHA3-256 without their last digit).
\<close>

theorem empty_input_digests:
  "map_option (map_sum id hex_of_bytes) (keccak_256 (Some []) 0) =
     Some (Inr ''9e4c11b2a567c72fb457a9dee16f636c5b1f16a0372ee07d8fcbe729d53731a0'') \<and>
   map_option (map_sum id hex_of_bytes) (sha3_256 (Some []) 0) =
     Some (Inr ''4d44f917a2612328bf726382a2bcb2e5efab3874e98fc63d1e996b74333ff0dc'') \<and>
   take 63 ''9e4c11b2a567c72fb457a9dee16f636c5b1f16a0372ee07d8fcbe729d53731a0'' \<noteq>
     ''c5d2460186f7233c927e7db2dcc703c0e500b653ca82273b7bfad8045d85a47'' \<and>
   take 63 ''4d44f917a2612328bf726382a2bcb2e5efab3874e98fc63d1e996b74333ff0dc'' \<noteq>
     ''a7ffc6f8bf1ed76651c14756a061d662f580ff4de43b49fa82d80a4b80f8434''"
  by (simp add: keccak_256_empty_bytes sha3_256_empty_bytes hex_of_bytes_def hex_digit_simps)

section \<open>The standard's round, stage by stage\<close>

lemma upt_0_25:
  "[0..<25] = [0, 1, 2, 3, 4, 5, 6, 7, 8, 9, 10, 11, 12, 13, 14, 15, 16, 17, 18, 19, 20, 21,
               22, 23, 24 :: nat]"
  by code_simp

lemma rho_offsets:
  "map (\<lambda>i. rho_offset (i mod 5) (i div 5)) [0..<25] =
     [0, 1, 62, 28, 27, 36, 44, 6, 55, 20, 3, 10, 43, 25, 39, 41, 45, 15, 21, 8, 18, 2, 61, 56, 14]"
  by code_simp

lemma rc_bits_table:
  "map (\<lambda>i. map (\<lambda>j. rc_bit (j + 7 * i)) [0..<7]) [0..<24] = RC7"
  by code_simp

lemma theta_std_stages: "theta_std A = theta_g (XOR) word_rotl A"
  by (simp add: theta_std_def of_lanes_def upt_0_25 theta_D_def theta_C_def lane_at_def
      theta_g_def th_cols_def th_dls_lit th_app_def flip: numeral_2_eq_2)

lemma word_rotl_0: "word_rotl 0 (w :: u64) = w"
  by (rule bit_eqI) (auto simp: bit_word_rotl_iff dest: bit_imp_le_length)

lemma rho_pi_std_stages: "pi_std (rho_std A) = rhopi_std_g word_rotl A"
  using rho_offsets
  by (simp add: pi_std_def rho_std_def of_lanes_def upt_0_25 lane_at_def rhopi_std_g_def
      word_rotl_0 flip: numeral_2_eq_2)

lemma chi_std_stages: "chi_std A = chi_g chiw A"
  by (simp add: chi_std_def of_lanes_def upt_0_25 lane_at_def chi_g_def chiw_def
      flip: numeral_2_eq_2)

lemma iota_std_stages: "length A = 25 \<Longrightarrow> iota_std i A = iota_g (XOR) (RC_std i) A"
  using list25 [of A] by (simp add: iota_std_def iota_g_def) (metis list_update_code(2))

lemma upt_0_24:
  "[0..<24] = [0, 1, 2, 3, 4, 5, 6, 7, 8, 9, 10, 11, 12, 13, 14, 15, 16, 17, 18, 19, 20, 21,
               22, 23 :: nat]"
  by code_simp

lemma upt_0_7: "[0..<7] = [0, 1, 2, 3, 4, 5, 6 :: nat]"
  by code_simp

text \<open>The table \<^verbatim>\<open>KECCAK_RC\<close> holds the round constants of the standard.\<close>

lemma KECCAK_RC_standard: "KECCAK_RC = map RC_std [0..<24]"
  using rc_bits_table
  by (simp add: RC7_def RC_std_def KECCAK_RC_def upt_0_24 upt_0_7 flip: numeral_2_eq_2)

lemma round_std_stages:
  "round_std i A =
     iota_g (XOR) (RC_std i) (chi_g chiw (rhopi_std_g word_rotl (theta_g (XOR) word_rotl A)))"
proof -
  have "length (chi_g chiw (rhopi_std_g word_rotl (theta_g (XOR) word_rotl A))) = 25"
    by (simp add: chi_g_def)
  then show ?thesis
    by (simp add: round_std_def theta_std_stages rho_pi_std_stages chi_std_stages iota_std_stages)
qed

text \<open>
  A round of \<^verbatim>\<open>keccakf1600\<close> and a round of the standard differ in the step between
  Theta and Chi only.
\<close>

lemma KECCAK_ROUND_vs_standard:
  "KECCAK_ROUND (RC_std i) A =
     iota_g (XOR) (RC_std i) (chi_g chiw (rhopi_code_g word_rotl (theta_g (XOR) word_rotl A)))"
  "round_std i A =
     iota_g (XOR) (RC_std i) (chi_g chiw (rhopi_std_g word_rotl (theta_g (XOR) word_rotl A)))"
  by (rule KECCAK_ROUND_stages, rule round_std_stages)

lemma keccak_f1600_std_fold:
  "keccak_f1600_std A =
     fold (\<lambda>rc B. iota_g (XOR) rc (chi_g chiw (rhopi_std_g word_rotl (theta_g (XOR) word_rotl B))))
       KECCAK_RC A"
proof -
  have "round_std = (\<lambda>i. (\<lambda>rc B. iota_g (XOR) rc (chi_g chiw (rhopi_std_g word_rotl
                        (theta_g (XOR) word_rotl B)))) (RC_std i))"
    by (intro ext) (simp add: round_std_stages)
  then show ?thesis
    by (simp only: keccak_f1600_std_def KECCAK_RC_standard fold_map comp_def)
qed

lemma round_std_bits:
  assumes "wfb s" "length rc = 64"
  shows "iota_g (XOR) (b2w rc) (chi_g chiw (rhopi_std_g word_rotl (theta_g (XOR) word_rotl (map b2w s))))
           = map b2w (round_std_b rc s)"
    and "wfb (round_std_b rc s)"
proof -
  note t = theta_g_bits [OF assms(1)]
  note r = rhopi_std_g_bits [OF t(2)]
  note c = chi_g_bits [OF r(2)]
  note i = iota_g_bits [OF c(2) assms(2)]
  show "iota_g (XOR) (b2w rc) (chi_g chiw (rhopi_std_g word_rotl (theta_g (XOR) word_rotl (map b2w s))))
           = map b2w (round_std_b rc s)"
    by (simp only: round_std_b_def t(1) r(1) c(1) i(1))
  show "wfb (round_std_b rc s)"
    by (simp only: round_std_b_def i(2))
qed

lemma fold_round_std_bits:
  assumes "wfb s"
  shows "fold (\<lambda>rc B. iota_g (XOR) rc (chi_g chiw (rhopi_std_g word_rotl (theta_g (XOR) word_rotl B))))
           (map (\<lambda>r. b2w (rc_bits7 r)) rs) (map b2w s) =
           map b2w (fold (\<lambda>r. round_std_b (rc_bits7 r)) rs s) \<and>
         wfb (fold (\<lambda>r. round_std_b (rc_bits7 r)) rs s)"
  using assms
proof (induction rs arbitrary: s)
  case Nil
  then show ?case by simp
next
  case (Cons r rs)
  note rb = round_std_bits [OF Cons.prems length_rc_bits7, of r]
  from Cons.IH [OF rb(2)] show ?case by (simp add: rb(1))
qed

lemma keccak_f1600_std_bits:
  assumes "wfb s"
  shows "keccak_f1600_std (map b2w s) = map b2w (perm_std_b s)"
  using fold_round_std_bits [OF assms, of RC7]
  by (simp add: keccak_f1600_std_fold KECCAK_RC_bits perm_std_b_def)

section \<open>Both permutations on the all-zero state\<close>

lemma zero_state_bits: "keccak_state_zero = map b2w [z64, z64, z64, z64, z64, z64, z64, z64, z64, z64, z64, z64, z64, z64, z64, z64, z64, z64, z64, z64, z64, z64, z64, z64, z64]"
  by (simp add: keccak_state_zero_def b2w_z64)

lemma wfb_zero: "wfb [z64, z64, z64, z64, z64, z64, z64, z64, z64, z64, z64, z64, z64, z64, z64, z64, z64, z64, z64, z64, z64, z64, z64, z64, z64]"
  by (simp add: wfb_lit length_z64)

lemma keccakf1600_zero:
  "keccakf1600 keccak_state_zero =
     [0x3fe125c4026115d6, 0x69116d6bad1e554d, 0xbfad3bb533b371c0,
      0x3ebb47469c2883c6, 0xab5e18f600f7bccf, 0x71949bef4b9b8872,
      0x24af409c9b6d9a6b, 0xa9b1edc46a969af9, 0x77153b7decc3d2fc,
      0x292227c4b3714ebc, 0x2c3248d398d7d187, 0xf22cb2093a9e2fec,
      0x8ad54fd30f804e43, 0x86a5047416f5fa74, 0xe162db41e1ff937b,
      0x64f229cae0e96312, 0x1969b5554239a4b8, 0x26f313d0cafc7044,
      0x96b2b29d707fe758, 0x607941a6b382628b, 0xf88bbdadd68be590,
      0xf6e9fe687fbadce2, 0x9142d489855ae2c2, 0xa8d789cd0826b072,
      0x0b0889413d078f50]"
proof -
  have "map b2w (perm_code_b [z64, z64, z64, z64, z64, z64, z64, z64, z64, z64, z64, z64, z64, z64, z64, z64, z64, z64, z64, z64, z64, z64, z64, z64, z64]) =
     [0x3fe125c4026115d6, 0x69116d6bad1e554d, 0xbfad3bb533b371c0,
      0x3ebb47469c2883c6, 0xab5e18f600f7bccf, 0x71949bef4b9b8872,
      0x24af409c9b6d9a6b, 0xa9b1edc46a969af9, 0x77153b7decc3d2fc,
      0x292227c4b3714ebc, 0x2c3248d398d7d187, 0xf22cb2093a9e2fec,
      0x8ad54fd30f804e43, 0x86a5047416f5fa74, 0xe162db41e1ff937b,
      0x64f229cae0e96312, 0x1969b5554239a4b8, 0x26f313d0cafc7044,
      0x96b2b29d707fe758, 0x607941a6b382628b, 0xf88bbdadd68be590,
      0xf6e9fe687fbadce2, 0x9142d489855ae2c2, 0xa8d789cd0826b072,
      0x0b0889413d078f50]"
    apply (simp only: perm_eval)
    apply (simp only: list.map b2w_Cons b2w_Nil of_bool_eq)
    apply simp
    done
  then show ?thesis
    by (simp only: zero_state_bits keccakf1600_bits [OF wfb_zero])
qed

lemma keccak_f1600_std_zero:
  "keccak_f1600_std keccak_state_zero =
     [0xf1258f7940e1dde7, 0x84d5ccf933c0478a, 0xd598261ea65aa9ee,
      0xbd1547306f80494d, 0x8b284e056253d057, 0xff97a42d7f8e6fd4,
      0x90fee5a0a44647c4, 0x8c5bda0cd6192e76, 0xad30a6f71b19059c,
      0x30935ab7d08ffc64, 0xeb5aa93f2317d635, 0xa9a6e6260d712103,
      0x81a57c16dbcf555f, 0x43b831cd0347c826, 0x01f22f1a11a5569f,
      0x05e5635a21d9ae61, 0x64befef28cc970f2, 0x613670957bc46611,
      0xb87c5a554fd00ecb, 0x8c3ee88a1ccf32c8, 0x940c7922ae3a2614,
      0x1841f924a2c509e4, 0x16f53526e70465c2, 0x75f644e97f30a13b,
      0xeaf1ff7b5ceca249]"
proof -
  have "map b2w (perm_std_b [z64, z64, z64, z64, z64, z64, z64, z64, z64, z64, z64, z64, z64, z64, z64, z64, z64, z64, z64, z64, z64, z64, z64, z64, z64]) =
     [0xf1258f7940e1dde7, 0x84d5ccf933c0478a, 0xd598261ea65aa9ee,
      0xbd1547306f80494d, 0x8b284e056253d057, 0xff97a42d7f8e6fd4,
      0x90fee5a0a44647c4, 0x8c5bda0cd6192e76, 0xad30a6f71b19059c,
      0x30935ab7d08ffc64, 0xeb5aa93f2317d635, 0xa9a6e6260d712103,
      0x81a57c16dbcf555f, 0x43b831cd0347c826, 0x01f22f1a11a5569f,
      0x05e5635a21d9ae61, 0x64befef28cc970f2, 0x613670957bc46611,
      0xb87c5a554fd00ecb, 0x8c3ee88a1ccf32c8, 0x940c7922ae3a2614,
      0x1841f924a2c509e4, 0x16f53526e70465c2, 0x75f644e97f30a13b,
      0xeaf1ff7b5ceca249]"
    apply (simp only: perm_std_b_def round_std_b_def rhopi_std_g_lit perm_eval)
    apply (simp only: list.map b2w_Cons b2w_Nil of_bool_eq)
    apply simp
    done
  then show ?thesis
    by (simp only: zero_state_bits keccak_f1600_std_bits [OF wfb_zero])
qed

text \<open>
  Claim C2, evaluated where it fails.  On the all-zero state \<^verbatim>\<open>keccakf1600\<close> returns
  \<open>0x3fe125c4026115d6\<close> in lane \<open>(0, 0)\<close>, where the Keccak-f[1600] permutation of the
  standard returns \<open>0xf1258f7940e1dde7\<close>.
\<close>

theorem keccakf1600_is_not_the_standard_permutation:
  "keccakf1600 keccak_state_zero ! 0 = 0x3fe125c4026115d6 \<and>
   keccak_f1600_std keccak_state_zero ! 0 = 0xf1258f7940e1dde7 \<and>
   keccakf1600 keccak_state_zero \<noteq> keccak_f1600_std keccak_state_zero"
  by (simp add: keccakf1600_zero keccak_f1600_std_zero)

section \<open>The one-shot helpers on the empty input\<close>

lemma upt_0_28:
  "[0..<28] = take 28 [0..<32]"
  by code_simp

lemma upt_0_48:
  "[0..<48] = [0..<32] @ map (\<lambda>i. i + 32) (take 16 [0..<32])"
  by code_simp

lemma upt_0_64:
  "[0..<64] = [0..<32] @ map (\<lambda>i. i + 32) [0..<32]"
  by code_simp

lemma keccak_256_no_pointer_bytes:
  "keccak_256 None 0 = Some (Inr
     [0x9e, 0x4c, 0x11, 0xb2, 0xa5, 0x67, 0xc7, 0x2f,
      0xb4, 0x57, 0xa9, 0xde, 0xe1, 0x6f, 0x63, 0x6c,
      0x5b, 0x1f, 0x16, 0xa0, 0x37, 0x2e, 0xe0, 0x7d,
      0x8f, 0xcb, 0xe7, 0x29, 0xd5, 0x37, 0x31, 0xa0])"
  by (simp add: keccak_256_def KECCAK_RATE_SHA3_256_def KECCAK_DELIM_KECCAK_def
      sha3_hash_generic_empty keccakf1600_keccak_empty st_get_def upt_0_32)

lemma keccakf1600_sha3_224_empty:
  "keccakf1600 (st_xor (st_xor keccak_state_zero 0 0x06) 143 0x80) =
     [0x91f8039b5c0f5ec0, 0xb0d65e1cfe0f0d65, 0x06d204a7f0a056de,
      0x2dd04c45135aa41f, 0x4dad994788b5572e, 0xc17a9095ab8348b6,
      0x6c7010f32f91b566, 0xa48982c2b2fc50a3, 0x1334897db6d4b907,
      0x5a0099f95322b9b5, 0xe0b5c9cfad7ff6db, 0x67590ebbfa77137a,
      0xc76912a247ae6f40, 0xce5754d356abf10a, 0xe1857b2be814b027,
      0x1d76df6c87b83d78, 0x9cc74e1e0de138aa, 0xab4933c6683cf797,
      0x1dbae17565370bf3, 0x388ff21938c368ce, 0x548eda20f1e0c6e6,
      0x80c9581b2c927707, 0xb073668f99342ace, 0x11a12c08d9d06aaa,
      0x21d69121c55a7c5e]"
proof -
  let ?s = "[False # True # True # tl (tl (tl z64)), z64, z64, z64, z64, z64, z64, z64, z64, z64, z64, z64, z64, z64, z64, z64, z64, rotb 63 (True # tl z64), z64, z64, z64, z64, z64, z64, z64]"
  have w: "wfb ?s" by (simp add: wfb_lit length_z64)
  have l: "st_xor (st_xor keccak_state_zero 0 0x06) 143 0x80 =
     [0x0000000000000006, 0x0000000000000000, 0x0000000000000000,
      0x0000000000000000, 0x0000000000000000, 0x0000000000000000,
      0x0000000000000000, 0x0000000000000000, 0x0000000000000000,
      0x0000000000000000, 0x0000000000000000, 0x0000000000000000,
      0x0000000000000000, 0x0000000000000000, 0x0000000000000000,
      0x0000000000000000, 0x0000000000000000, 0x8000000000000000,
      0x0000000000000000, 0x0000000000000000, 0x0000000000000000,
      0x0000000000000000, 0x0000000000000000, 0x0000000000000000,
      0x0000000000000000]"
    by (simp add: st_xor_def keccak_state_zero_def)
  have r: "map b2w ?s =
     [0x0000000000000006, 0x0000000000000000, 0x0000000000000000,
      0x0000000000000000, 0x0000000000000000, 0x0000000000000000,
      0x0000000000000000, 0x0000000000000000, 0x0000000000000000,
      0x0000000000000000, 0x0000000000000000, 0x0000000000000000,
      0x0000000000000000, 0x0000000000000000, 0x0000000000000000,
      0x0000000000000000, 0x0000000000000000, 0x8000000000000000,
      0x0000000000000000, 0x0000000000000000, 0x0000000000000000,
      0x0000000000000000, 0x0000000000000000, 0x0000000000000000,
      0x0000000000000000]"
    apply (simp only: perm_eval)
    apply (simp only: list.map b2w_Cons b2w_Nil of_bool_eq)
    apply simp
    done
  have "map b2w (perm_code_b ?s) =
     [0x91f8039b5c0f5ec0, 0xb0d65e1cfe0f0d65, 0x06d204a7f0a056de,
      0x2dd04c45135aa41f, 0x4dad994788b5572e, 0xc17a9095ab8348b6,
      0x6c7010f32f91b566, 0xa48982c2b2fc50a3, 0x1334897db6d4b907,
      0x5a0099f95322b9b5, 0xe0b5c9cfad7ff6db, 0x67590ebbfa77137a,
      0xc76912a247ae6f40, 0xce5754d356abf10a, 0xe1857b2be814b027,
      0x1d76df6c87b83d78, 0x9cc74e1e0de138aa, 0xab4933c6683cf797,
      0x1dbae17565370bf3, 0x388ff21938c368ce, 0x548eda20f1e0c6e6,
      0x80c9581b2c927707, 0xb073668f99342ace, 0x11a12c08d9d06aaa,
      0x21d69121c55a7c5e]"
    apply (simp only: perm_eval)
    apply (simp only: list.map b2w_Cons b2w_Nil of_bool_eq)
    apply simp
    done
  then show ?thesis
    by (simp only: l r [symmetric] keccakf1600_bits [OF w])
qed

lemma sha3_224_no_pointer_bytes:
  "sha3_224 None 0 = Some (Inr
     [0xc0, 0x5e, 0x0f, 0x5c, 0x9b, 0x03, 0xf8, 0x91,
      0x65, 0x0d, 0x0f, 0xfe, 0x1c, 0x5e, 0xd6, 0xb0,
      0xde, 0x56, 0xa0, 0xf0, 0xa7, 0x04, 0xd2, 0x06,
      0x1f, 0xa4, 0x5a, 0x13])"
  by (simp add: sha3_224_def KECCAK_RATE_SHA3_224_def KECCAK_DELIM_SHA3_def
      sha3_hash_generic_empty keccakf1600_sha3_224_empty st_get_def upt_0_28 upt_0_32)

lemma sha3_256_no_pointer_bytes:
  "sha3_256 None 0 = Some (Inr
     [0x4d, 0x44, 0xf9, 0x17, 0xa2, 0x61, 0x23, 0x28,
      0xbf, 0x72, 0x63, 0x82, 0xa2, 0xbc, 0xb2, 0xe5,
      0xef, 0xab, 0x38, 0x74, 0xe9, 0x8f, 0xc6, 0x3d,
      0x1e, 0x99, 0x6b, 0x74, 0x33, 0x3f, 0xf0, 0xdc])"
  by (simp add: sha3_256_def KECCAK_RATE_SHA3_256_def KECCAK_DELIM_SHA3_def
      sha3_hash_generic_empty keccakf1600_sha3_empty st_get_def upt_0_32)

lemma keccakf1600_sha3_384_empty:
  "keccakf1600 (st_xor (st_xor keccak_state_zero 0 0x06) 103 0x80) =
     [0xeee59fa77e83e847, 0x721220624f3db3c9, 0x7762516ea6bb6beb,
      0x281556a889be7182, 0x660c6acf3b9a607d, 0x91690cb5d2321052,
      0xc362bc637595ec59, 0xba8aa2dc4042b7a2, 0x5a3a7b45e691d824,
      0xfbd3aaf27edb806b, 0xfafca5fea5ed9d6e, 0x42b7ad65024cf4ab,
      0x364c1d4358987fa6, 0x6c10c77d3e52d120, 0x9c011018e480a86c,
      0xb0da3bc840ede425, 0x01bff2ab42269aa7, 0x6b9c6b97c7eeda92,
      0x0b0d8e13ce16e89d, 0xa5fd033f7f77100e, 0x16bc457ac149c760,
      0x367e4ef3e651c340, 0x6e782bcec689adaf, 0xc861627ec42473b1,
      0xf0672006d06aec68]"
proof -
  let ?s = "[False # True # True # tl (tl (tl z64)), z64, z64, z64, z64, z64, z64, z64, z64, z64, z64, z64, rotb 63 (True # tl z64), z64, z64, z64, z64, z64, z64, z64, z64, z64, z64, z64, z64]"
  have w: "wfb ?s" by (simp add: wfb_lit length_z64)
  have l: "st_xor (st_xor keccak_state_zero 0 0x06) 103 0x80 =
     [0x0000000000000006, 0x0000000000000000, 0x0000000000000000,
      0x0000000000000000, 0x0000000000000000, 0x0000000000000000,
      0x0000000000000000, 0x0000000000000000, 0x0000000000000000,
      0x0000000000000000, 0x0000000000000000, 0x0000000000000000,
      0x8000000000000000, 0x0000000000000000, 0x0000000000000000,
      0x0000000000000000, 0x0000000000000000, 0x0000000000000000,
      0x0000000000000000, 0x0000000000000000, 0x0000000000000000,
      0x0000000000000000, 0x0000000000000000, 0x0000000000000000,
      0x0000000000000000]"
    by (simp add: st_xor_def keccak_state_zero_def)
  have r: "map b2w ?s =
     [0x0000000000000006, 0x0000000000000000, 0x0000000000000000,
      0x0000000000000000, 0x0000000000000000, 0x0000000000000000,
      0x0000000000000000, 0x0000000000000000, 0x0000000000000000,
      0x0000000000000000, 0x0000000000000000, 0x0000000000000000,
      0x8000000000000000, 0x0000000000000000, 0x0000000000000000,
      0x0000000000000000, 0x0000000000000000, 0x0000000000000000,
      0x0000000000000000, 0x0000000000000000, 0x0000000000000000,
      0x0000000000000000, 0x0000000000000000, 0x0000000000000000,
      0x0000000000000000]"
    apply (simp only: perm_eval)
    apply (simp only: list.map b2w_Cons b2w_Nil of_bool_eq)
    apply simp
    done
  have "map b2w (perm_code_b ?s) =
     [0xeee59fa77e83e847, 0x721220624f3db3c9, 0x7762516ea6bb6beb,
      0x281556a889be7182, 0x660c6acf3b9a607d, 0x91690cb5d2321052,
      0xc362bc637595ec59, 0xba8aa2dc4042b7a2, 0x5a3a7b45e691d824,
      0xfbd3aaf27edb806b, 0xfafca5fea5ed9d6e, 0x42b7ad65024cf4ab,
      0x364c1d4358987fa6, 0x6c10c77d3e52d120, 0x9c011018e480a86c,
      0xb0da3bc840ede425, 0x01bff2ab42269aa7, 0x6b9c6b97c7eeda92,
      0x0b0d8e13ce16e89d, 0xa5fd033f7f77100e, 0x16bc457ac149c760,
      0x367e4ef3e651c340, 0x6e782bcec689adaf, 0xc861627ec42473b1,
      0xf0672006d06aec68]"
    apply (simp only: perm_eval)
    apply (simp only: list.map b2w_Cons b2w_Nil of_bool_eq)
    apply simp
    done
  then show ?thesis
    by (simp only: l r [symmetric] keccakf1600_bits [OF w])
qed

lemma sha3_384_no_pointer_bytes:
  "sha3_384 None 0 = Some (Inr
     [0x47, 0xe8, 0x83, 0x7e, 0xa7, 0x9f, 0xe5, 0xee,
      0xc9, 0xb3, 0x3d, 0x4f, 0x62, 0x20, 0x12, 0x72,
      0xeb, 0x6b, 0xbb, 0xa6, 0x6e, 0x51, 0x62, 0x77,
      0x82, 0x71, 0xbe, 0x89, 0xa8, 0x56, 0x15, 0x28,
      0x7d, 0x60, 0x9a, 0x3b, 0xcf, 0x6a, 0x0c, 0x66,
      0x52, 0x10, 0x32, 0xd2, 0xb5, 0x0c, 0x69, 0x91])"
  by (simp add: sha3_384_def KECCAK_RATE_SHA3_384_def KECCAK_DELIM_SHA3_def
      sha3_hash_generic_empty keccakf1600_sha3_384_empty st_get_def upt_0_48 upt_0_32)

lemma keccakf1600_sha3_512_empty:
  "keccakf1600 (st_xor (st_xor keccak_state_zero 0 0x06) 71 0x80) =
     [0x7134f6abd6ae0b75, 0x4779251586cc8529, 0x7cd6a6e62ddabe50,
      0x712a3c4fdaaffa1e, 0x0e131b69fd18c646, 0x689967009aaa5c5a,
      0xd97f5a7872123946, 0x3bd43ab5f49e6f70, 0xa93510e5244a1ae2,
      0xc63ebb710c5ceb7a, 0xf5f3949d2dd56947, 0x0f42eb5ab1a07d08,
      0xaf546dd60eb1e536, 0xa0b2d8611d30c43a, 0xc31caf389d159a83,
      0xd51d2f02936bda26, 0x48b0ee2f14e72efd, 0xba41ab2837ef6e05,
      0x929a1626e1e2a8b0, 0x1016af4759604177, 0xa0df2e08e10cb4ce,
      0xe46de3b18ce7e8d2, 0xb92d847d3dc1ccbd, 0x34a080e02984dec9,
      0xf027a08d35a650ea]"
proof -
  let ?s = "[False # True # True # tl (tl (tl z64)), z64, z64, z64, z64, z64, z64, z64, rotb 63 (True # tl z64), z64, z64, z64, z64, z64, z64, z64, z64, z64, z64, z64, z64, z64, z64, z64, z64]"
  have w: "wfb ?s" by (simp add: wfb_lit length_z64)
  have l: "st_xor (st_xor keccak_state_zero 0 0x06) 71 0x80 =
     [0x0000000000000006, 0x0000000000000000, 0x0000000000000000,
      0x0000000000000000, 0x0000000000000000, 0x0000000000000000,
      0x0000000000000000, 0x0000000000000000, 0x8000000000000000,
      0x0000000000000000, 0x0000000000000000, 0x0000000000000000,
      0x0000000000000000, 0x0000000000000000, 0x0000000000000000,
      0x0000000000000000, 0x0000000000000000, 0x0000000000000000,
      0x0000000000000000, 0x0000000000000000, 0x0000000000000000,
      0x0000000000000000, 0x0000000000000000, 0x0000000000000000,
      0x0000000000000000]"
    by (simp add: st_xor_def keccak_state_zero_def)
  have r: "map b2w ?s =
     [0x0000000000000006, 0x0000000000000000, 0x0000000000000000,
      0x0000000000000000, 0x0000000000000000, 0x0000000000000000,
      0x0000000000000000, 0x0000000000000000, 0x8000000000000000,
      0x0000000000000000, 0x0000000000000000, 0x0000000000000000,
      0x0000000000000000, 0x0000000000000000, 0x0000000000000000,
      0x0000000000000000, 0x0000000000000000, 0x0000000000000000,
      0x0000000000000000, 0x0000000000000000, 0x0000000000000000,
      0x0000000000000000, 0x0000000000000000, 0x0000000000000000,
      0x0000000000000000]"
    apply (simp only: perm_eval)
    apply (simp only: list.map b2w_Cons b2w_Nil of_bool_eq)
    apply simp
    done
  have "map b2w (perm_code_b ?s) =
     [0x7134f6abd6ae0b75, 0x4779251586cc8529, 0x7cd6a6e62ddabe50,
      0x712a3c4fdaaffa1e, 0x0e131b69fd18c646, 0x689967009aaa5c5a,
      0xd97f5a7872123946, 0x3bd43ab5f49e6f70, 0xa93510e5244a1ae2,
      0xc63ebb710c5ceb7a, 0xf5f3949d2dd56947, 0x0f42eb5ab1a07d08,
      0xaf546dd60eb1e536, 0xa0b2d8611d30c43a, 0xc31caf389d159a83,
      0xd51d2f02936bda26, 0x48b0ee2f14e72efd, 0xba41ab2837ef6e05,
      0x929a1626e1e2a8b0, 0x1016af4759604177, 0xa0df2e08e10cb4ce,
      0xe46de3b18ce7e8d2, 0xb92d847d3dc1ccbd, 0x34a080e02984dec9,
      0xf027a08d35a650ea]"
    apply (simp only: perm_eval)
    apply (simp only: list.map b2w_Cons b2w_Nil of_bool_eq)
    apply simp
    done
  then show ?thesis
    by (simp only: l r [symmetric] keccakf1600_bits [OF w])
qed

lemma sha3_512_no_pointer_bytes:
  "sha3_512 None 0 = Some (Inr
     [0x75, 0x0b, 0xae, 0xd6, 0xab, 0xf6, 0x34, 0x71,
      0x29, 0x85, 0xcc, 0x86, 0x15, 0x25, 0x79, 0x47,
      0x50, 0xbe, 0xda, 0x2d, 0xe6, 0xa6, 0xd6, 0x7c,
      0x1e, 0xfa, 0xaf, 0xda, 0x4f, 0x3c, 0x2a, 0x71,
      0x46, 0xc6, 0x18, 0xfd, 0x69, 0x1b, 0x13, 0x0e,
      0x5a, 0x5c, 0xaa, 0x9a, 0x00, 0x67, 0x99, 0x68,
      0x46, 0x39, 0x12, 0x72, 0x78, 0x5a, 0x7f, 0xd9,
      0x70, 0x6f, 0x9e, 0xf4, 0xb5, 0x3a, 0xd4, 0x3b])"
  by (simp add: sha3_512_def KECCAK_RATE_SHA3_512_def KECCAK_DELIM_SHA3_def
      sha3_hash_generic_empty keccakf1600_sha3_512_empty st_get_def upt_0_64 upt_0_32)

lemma keccak_256_no_pointer_hex:
  "map_option (map_sum id hex_of_bytes) (keccak_256 None 0) =
     Some (Inr ''9e4c11b2a567c72fb457a9dee16f636c5b1f16a0372ee07d8fcbe729d53731a0'')"
  by (simp add: keccak_256_no_pointer_bytes hex_of_bytes_def hex_digit_simps)

lemma keccak_256_no_pointer_not_standard:
  "map_option (map_sum id hex_of_bytes) (keccak_256 None 0) \<noteq>
     Some (Inr ''c5d2460186f7233c927e7db2dcc703c0e500b653ca82273b7bfad8045d85a470'')"
  by (simp add: keccak_256_no_pointer_hex)

lemma sha3_224_no_pointer_hex:
  "map_option (map_sum id hex_of_bytes) (sha3_224 None 0) =
     Some (Inr ''c05e0f5c9b03f891650d0ffe1c5ed6b0de56a0f0a704d2061fa45a13'')"
  by (simp add: sha3_224_no_pointer_bytes hex_of_bytes_def hex_digit_simps)

lemma sha3_224_no_pointer_not_standard:
  "map_option (map_sum id hex_of_bytes) (sha3_224 None 0) \<noteq>
     Some (Inr ''6b4e03423667dbb73b6e15454f0eb1abd4597f9a1b078e3f5b5a6bc7'')"
  by (simp add: sha3_224_no_pointer_hex)

lemma sha3_256_no_pointer_hex:
  "map_option (map_sum id hex_of_bytes) (sha3_256 None 0) =
     Some (Inr ''4d44f917a2612328bf726382a2bcb2e5efab3874e98fc63d1e996b74333ff0dc'')"
  by (simp add: sha3_256_no_pointer_bytes hex_of_bytes_def hex_digit_simps)

lemma sha3_256_no_pointer_not_standard:
  "map_option (map_sum id hex_of_bytes) (sha3_256 None 0) \<noteq>
     Some (Inr ''a7ffc6f8bf1ed76651c14756a061d662f580ff4de43b49fa82d80a4b80f8434a'')"
  by (simp add: sha3_256_no_pointer_hex)

lemma sha3_384_no_pointer_hex:
  "map_option (map_sum id hex_of_bytes) (sha3_384 None 0) =
     Some (Inr ''47e8837ea79fe5eec9b33d4f62201272eb6bbba66e5162778271be89a85615287d609a3bcf6a0c66521032d2b50c6991'')"
  by (simp add: sha3_384_no_pointer_bytes hex_of_bytes_def hex_digit_simps)

lemma sha3_384_no_pointer_not_standard:
  "map_option (map_sum id hex_of_bytes) (sha3_384 None 0) \<noteq>
     Some (Inr ''0c63a75b845e4f7d01107d852e4c2485c51a50aaaa94fc61995e71bbee983a2ac3713831264adb47fb6bd1e058d5f004'')"
  by (simp add: sha3_384_no_pointer_hex)

lemma sha3_512_no_pointer_hex:
  "map_option (map_sum id hex_of_bytes) (sha3_512 None 0) =
     Some (Inr ''750baed6abf634712985cc861525794750beda2de6a6d67c1efaafda4f3c2a7146c618fd691b130e5a5caa9a0067996846391272785a7fd9706f9ef4b53ad43b'')"
  by (simp add: sha3_512_no_pointer_bytes hex_of_bytes_def hex_digit_simps)

lemma sha3_512_no_pointer_not_standard:
  "map_option (map_sum id hex_of_bytes) (sha3_512 None 0) \<noteq>
     Some (Inr ''a69f73cca23a9ac5c8b567dc185a756e97c982164fe25859e0d1dcc1475c80a615b2123af1f5f94c11e3e9402c3ac558f500199d95b6d3e301758586281dcd26'')"
  by (simp add: sha3_512_no_pointer_hex)

text \<open>
  Claim C9.  With input length 0 and an absent input pointer every one-shot
  helper returns without a fault, and returns what it returns for a pointer to any buffer;
  \<^verbatim>\<open>keccak1600_absorb\<close> with \<^verbatim>\<open>inlen = 0\<close> never reads through its input pointer.  The
  bytes written are \<open>9e4c11b2\<dots>\<close> for \<^verbatim>\<open>keccak_256\<close>, \<open>c05e0f5c\<dots>\<close> for \<^verbatim>\<open>sha3_224\<close>,
  \<open>4d44f917\<dots>\<close> for \<^verbatim>\<open>sha3_256\<close>, and so on: in no case the digest of the empty input
  of the variant (Keccak-256, SHA3-224, SHA3-256, SHA3-384, SHA3-512), which the second
  group of conjuncts quotes.
\<close>

theorem empty_input_without_pointer:
  "map_option (map_sum id hex_of_bytes) (keccak_256 None 0) =
     Some (Inr ''9e4c11b2a567c72fb457a9dee16f636c5b1f16a0372ee07d8fcbe729d53731a0'') \<and>
   map_option (map_sum id hex_of_bytes) (sha3_224 None 0) =
     Some (Inr ''c05e0f5c9b03f891650d0ffe1c5ed6b0de56a0f0a704d2061fa45a13'') \<and>
   map_option (map_sum id hex_of_bytes) (sha3_256 None 0) =
     Some (Inr ''4d44f917a2612328bf726382a2bcb2e5efab3874e98fc63d1e996b74333ff0dc'') \<and>
   map_option (map_sum id hex_of_bytes) (sha3_384 None 0) =
     Some (Inr ''47e8837ea79fe5eec9b33d4f62201272eb6bbba66e5162778271be89a85615287d609a3bcf6a0c66521032d2b50c6991'') \<and>
   map_option (map_sum id hex_of_bytes) (sha3_512 None 0) =
     Some (Inr ''750baed6abf634712985cc861525794750beda2de6a6d67c1efaafda4f3c2a7146c618fd691b130e5a5caa9a0067996846391272785a7fd9706f9ef4b53ad43b'') \<and>
   map_option (map_sum id hex_of_bytes) (keccak_256 None 0) \<noteq>
     Some (Inr ''c5d2460186f7233c927e7db2dcc703c0e500b653ca82273b7bfad8045d85a470'') \<and>
   map_option (map_sum id hex_of_bytes) (sha3_224 None 0) \<noteq>
     Some (Inr ''6b4e03423667dbb73b6e15454f0eb1abd4597f9a1b078e3f5b5a6bc7'') \<and>
   map_option (map_sum id hex_of_bytes) (sha3_256 None 0) \<noteq>
     Some (Inr ''a7ffc6f8bf1ed76651c14756a061d662f580ff4de43b49fa82d80a4b80f8434a'') \<and>
   map_option (map_sum id hex_of_bytes) (sha3_384 None 0) \<noteq>
     Some (Inr ''0c63a75b845e4f7d01107d852e4c2485c51a50aaaa94fc61995e71bbee983a2ac3713831264adb47fb6bd1e058d5f004'') \<and>
   map_option (map_sum id hex_of_bytes) (sha3_512 None 0) \<noteq>
     Some (Inr ''a69f73cca23a9ac5c8b567dc185a756e97c982164fe25859e0d1dcc1475c80a615b2123af1f5f94c11e3e9402c3ac558f500199d95b6d3e301758586281dcd26'') \<and>
   keccak_256 (Some bs) 0 = keccak_256 None 0 \<and>
   sha3_224 (Some bs) 0 = sha3_224 None 0 \<and>
   sha3_256 (Some bs) 0 = sha3_256 None 0 \<and>
   sha3_384 (Some bs) 0 = sha3_384 None 0 \<and>
   sha3_512 (Some bs) 0 = sha3_512 None 0 \<and>
   keccak1600_absorb ctx inp 0 = keccak1600_absorb ctx None 0 \<and>
   keccak1600_absorb ctx inp 0 \<noteq> Some (Inl NullDeref)"
  by (intro conjI)
    (rule keccak_256_no_pointer_hex sha3_224_no_pointer_hex sha3_256_no_pointer_hex
      sha3_384_no_pointer_hex sha3_512_no_pointer_hex
      keccak_256_no_pointer_not_standard sha3_224_no_pointer_not_standard
      sha3_256_no_pointer_not_standard sha3_384_no_pointer_not_standard
      sha3_512_no_pointer_not_standard
      one_shot_empty_any_pointer absorb_empty_any_pointer)+

end
